theory Spec2Isabelle
  imports Main "HOL-Library.Signed_Division"
begin

section \<open>Error values\<close>

text \<open>
  A Go \<open>error\<close> is an interface value: \<open>nil\<close>, or a value of some dynamic type.
  \<open>gosto.go\<close> looks at an error in four ways only: the nil test, the type assertions
  \<open>err.(*datastore.ErrFieldMismatch)\<close> and \<open>err.(datastore.MultiError)\<close>, identity with
  the sentinels \<open>datastore.ErrInvalidEntityType\<close> and \<open>datastore.ErrNoSuchEntity\<close>, and
  the text given by its \<open>Error()\<close> method. The datatype has one constructor for each
  dynamic type the code tells apart; \<open>OtherError\<close> stands for an error of any other
  dynamic type (an \<open>errors.New\<close> or \<open>fmt.Errorf\<close> value, a transport error) and carries
  its message. The interface value is \<open>error option\<close>, \<open>None\<close> being \<open>nil\<close>. Pointers
  to \<open>ErrFieldMismatch\<close> are taken to be non-nil, as the datastore client returns them.
\<close>

datatype error =
    ErrFieldMismatch string string string
  | ErrInvalidEntityType
  | ErrNoSuchEntity
  | OtherError string
  | MultiError "error option list"

text \<open>A runtime panic of the Go program.\<close>

datatype panic = IndexOutOfRange | SliceBoundsOutOfRange

text \<open>\<open>errFieldMismatch\<close>: the type assertion fails on \<open>nil\<close>.\<close>

fun errFieldMismatch :: "error option \<Rightarrow> bool" where
  "errFieldMismatch (Some (ErrFieldMismatch st fn r)) = True"
| "errFieldMismatch err = False"

section \<open>realError\<close>

text \<open>
  The \<open>Error()\<close> methods belong to the datastore package, so the rendering of an error
  is a parameter \<open>msg\<close> of the model; every result below holds for each rendering.

  The loop of \<open>realError\<close> from index 1 on, over the remaining slots: \<open>False\<close> is the
  early \<open>return multiError\<close>, \<open>True\<close> is falling out of the loop.
\<close>

fun realError_loop :: "(error \<Rightarrow> string) \<Rightarrow> error option \<Rightarrow> error option list \<Rightarrow> bool" where
  "realError_loop msg init [] = True"
| "realError_loop msg init (e # es) =
     (case (init, e) of
        (Some a, Some b) \<Rightarrow>
          if msg a \<noteq> msg b then False else realError_loop msg init es
      | _ \<Rightarrow>
          if init \<noteq> e then False else realError_loop msg init es)"

definition realError :: "(error \<Rightarrow> string) \<Rightarrow> error option list \<Rightarrow> error option" where
  "realError msg multiError =
     (case multiError of
        [] \<Rightarrow> None
      | init # rest \<Rightarrow>
          if \<not> realError_loop msg init rest then Some (MultiError multiError)
          else if errFieldMismatch init then Some (MultiError multiError)
          else if init = Some ErrInvalidEntityType \<or> init = Some ErrNoSuchEntity
            then Some (MultiError multiError)
          else init)"

section \<open>NotFound\<close>

text \<open>
  \<open>idx\<close> is a Go \<open>int\<close>. With a negative \<open>idx\<close> the test \<open>idx < len(merr)\<close> passes and
  the index expression \<open>merr[idx]\<close> panics.
\<close>

definition NotFound :: "error option \<Rightarrow> int \<Rightarrow> panic + bool" where
  "NotFound err idx =
     (case err of
        Some (MultiError merr) \<Rightarrow>
          if idx < int (length merr)
          then (if idx < 0 then Inl IndexOutOfRange
                else Inr (merr ! nat idx = Some ErrNoSuchEntity))
          else Inr False
      | _ \<Rightarrow> Inr False)"

section \<open>Keys and key extraction\<close>

text \<open>
  Modelled from the spec: \<open>datastore.Key\<close> and its method \<open>Incomplete\<close> belong to the
  client library, which is not at hand. A key has a kind, an identifier (a string name
  or a non-zero numeric id) or none, an optional parent and a namespace; it is complete
  when it carries an identifier, and the method is \<open>k.Name == "" && k.ID == 0\<close>. The id
  is an \<open>int64\<close>, only ever compared with 0 here, and stands as an \<open>int\<close>.
\<close>

datatype key = Key (Kind: string) (ID: int) (Name: string) (Parent: "key option") (Namespace: string)

definition Incomplete :: "key \<Rightarrow> bool" where
  "Incomplete k \<longleftrightarrow> Name k = [] \<and> ID k = 0"

text \<open>
  What \<open>reflect.Indirect(reflect.ValueOf(src))\<close> finds: a slice with its elements, or a
  value of another kind.
\<close>

datatype 'e src = Slice "'e list" | NotSlice

fun elems :: "'e src \<Rightarrow> 'e list" where
  "elems (Slice v) = v"
| "elems NotSlice = []"

text \<open>
  \<open>getStructKey\<close> is defined in another file of the package. It is a parameter here: for
  an element it gives an error, or the key and whether the element has a string id.
  \<open>fmtv\<close> is the \<open>%v\<close> rendering of an element by \<open>fmt\<close>.

  The loop of \<open>extractKeys\<close> over the elements, returning at the first failure.
\<close>

fun extractKeys_loop ::
  "('e \<Rightarrow> error + key \<times> bool) \<Rightarrow> ('e \<Rightarrow> string) \<Rightarrow> bool \<Rightarrow> 'e list \<Rightarrow> error + key list" where
  "extractKeys_loop getStructKey fmtv putRequest [] = Inr []"
| "extractKeys_loop getStructKey fmtv putRequest (vi # rest) =
     (case getStructKey vi of
        Inl err \<Rightarrow> Inl err
      | Inr (k, hasStringID) \<Rightarrow>
          if \<not> putRequest \<and> Incomplete k
            then Inl (OtherError (''Gosto: cannot find a key for struct - '' @ fmtv vi))
          else if putRequest \<and> Incomplete k \<and> hasStringID
            then Inl (OtherError ''Gosto: empty string id on put'')
          else (case extractKeys_loop getStructKey fmtv putRequest rest of
                  Inl err \<Rightarrow> Inl err
                | Inr keys \<Rightarrow> Inr (k # keys)))"

definition extractKeys ::
  "('e \<Rightarrow> error + key \<times> bool) \<Rightarrow> ('e \<Rightarrow> string) \<Rightarrow> 'e src \<Rightarrow> bool \<Rightarrow> error + key list" where
  "extractKeys getStructKey fmtv src putRequest =
     (case src of
        NotSlice \<Rightarrow> Inl (OtherError ''Gosto: value must be a slice or pointer-to-slice'')
      | Slice v \<Rightarrow> extractKeys_loop getStructKey fmtv putRequest v)"

section \<open>Chunks\<close>

definition putMultiLimit :: int where "putMultiLimit = 500"
definition getMultiLimit :: int where "getMultiLimit = 1000"
definition deleteMultiLimit :: int where "deleteMultiLimit = 500"

text \<open>
  The three batch operations compute the number of goroutines and the bounds of chunk
  \<open>i\<close> by the same expressions, with their own limit. Go's \<open>/\<close> on \<open>int\<close> truncates
  towards zero, which is \<open>sdiv\<close>. Lengths are far below the 64-bit bound, so \<open>int\<close>
  stands for Go's \<open>int\<close> without wrap-around: \<open>(i + 1) * limit\<close> stays below
  \<open>n + limit\<close>.
\<close>

definition goroutines :: "int \<Rightarrow> int \<Rightarrow> int" where
  "goroutines limit n = (n - 1) sdiv limit + 1"

definition chunk :: "int \<Rightarrow> int \<Rightarrow> int \<Rightarrow> int \<times> int" where
  "chunk limit n i =
     (let lo = i * limit;
          hi = (i + 1) * limit
      in (lo, if hi > n then n else hi))"

text \<open>The chunk plan: the bounds of the goroutines \<open>0, \<dots>, goroutines - 1\<close>, in this order.\<close>

definition plan :: "int \<Rightarrow> int \<Rightarrow> (int \<times> int) list" where
  "plan limit n = map (chunk limit n) [0..goroutines limit n - 1]"

text \<open>
  The slice expression \<open>xs[lo:hi]\<close>. It panics unless \<open>0 \<le> lo \<le> hi \<le> cap(xs)\<close>;
  lemma \<open>chunk_slice_ok\<close> below shows that the bounds of every chunk of a plan over
  \<open>xs\<close> satisfy this, so \<open>PutMulti\<close> and \<open>DeleteMulti\<close> use the slice without the test.
\<close>

definition slice :: "'a list \<Rightarrow> int \<Rightarrow> int \<Rightarrow> 'a list" where
  "slice xs lo hi = take (nat (hi - lo)) (drop (nat lo) xs)"

section \<open>Writing outcomes\<close>

text \<open>
  The shared variables of a batch call: the outcome array, the flag that some chunk
  failed, and (for the model) the service calls made, each with its arguments.
\<close>

record 'c outcomes =
  multiErr :: "error option list"
  anyErr :: bool
  calls :: "'c list"

text \<open>\<open>for j := lo; j < hi; j++ { multiErr[j] = err }\<close>\<close>

definition broadcast :: "error option list \<Rightarrow> int \<Rightarrow> int \<Rightarrow> error option \<Rightarrow> error option list" where
  "broadcast m lo hi err = fold (\<lambda>j m. m[nat j := err]) [lo..hi - 1] m"

text \<open>
  \<open>copy(multiErr[lo:hi], merr)\<close>: the built-in \<open>copy\<close> writes as many elements as the
  shorter of its two arguments has.
\<close>

definition copy_into :: "error option list \<Rightarrow> int \<Rightarrow> int \<Rightarrow> error option list \<Rightarrow> error option list" where
  "copy_into m lo hi merr =
     fold (\<lambda>k m. m[nat lo + k := merr ! k]) [0..<min (nat (hi - lo)) (length merr)] m"

text \<open>
  The failure branch that the goroutines of \<open>PutMulti\<close> and \<open>DeleteMulti\<close> share word
  for word: set the flag, then broadcast a plain error over the chunk or copy an
  itemized one into it.
\<close>

definition record_failure :: "int \<Rightarrow> int \<Rightarrow> error option \<Rightarrow> 'c outcomes \<Rightarrow> 'c outcomes" where
  "record_failure lo hi err st =
     (case err of
        None \<Rightarrow> st
      | Some (MultiError merr) \<Rightarrow>
          st\<lparr>anyErr := True, multiErr := copy_into (multiErr st) lo hi merr\<rparr>
      | Some e \<Rightarrow>
          st\<lparr>anyErr := True, multiErr := broadcast (multiErr st) lo hi err\<rparr>)"

section \<open>PutMulti and Put\<close>

text \<open>
  The datastore service is a parameter: \<open>put i ks es\<close> is the error with which the call
  of goroutine \<open>i\<close> returns, made with the keys \<open>ks\<close> and the entities \<open>es\<close>. The keys
  the service returns are dropped by \<open>PutMulti\<close>, which returns the extracted ones.

  The goroutines write to the outcome array at indices of their own chunk only, so they
  are run here one after the other, in the order of their index; the lemmas
  \<open>PutMulti_order_irrelevant\<close> and \<open>DeleteMulti_order_irrelevant\<close> show that every other
  order leaves the same outcome array and the same flag.
\<close>

definition PutMulti_worker ::
  "(int \<Rightarrow> key list \<Rightarrow> 'e list \<Rightarrow> error option) \<Rightarrow> key list \<Rightarrow> 'e list \<Rightarrow> int \<Rightarrow>
     (key list \<times> 'e list) outcomes \<Rightarrow> (key list \<times> 'e list) outcomes" where
  "PutMulti_worker put keys v i st =
     (let lo = i * putMultiLimit;
          hi = (i + 1) * putMultiLimit;
          hi = (if hi > int (length keys) then int (length keys) else hi);
          pmerr = put i (slice keys lo hi) (slice v lo hi)
      in record_failure lo hi pmerr (st\<lparr>calls := calls st @ [(slice keys lo hi, slice v lo hi)]\<rparr>))"

definition PutMulti_run ::
  "(int \<Rightarrow> key list \<Rightarrow> 'e list \<Rightarrow> error option) \<Rightarrow> key list \<Rightarrow> 'e list \<Rightarrow>
     (key list \<times> 'e list) outcomes" where
  "PutMulti_run put keys v =
     (let goroutines = (int (length keys) - 1) sdiv putMultiLimit + 1
      in fold (PutMulti_worker put keys v) [0..goroutines - 1]
           \<lparr>multiErr = replicate (length keys) None, anyErr = False, calls = []\<rparr>)"

text \<open>The result of \<open>PutMulti\<close>: the keys, the error, and the service calls made.\<close>

definition PutMulti ::
  "(error \<Rightarrow> string) \<Rightarrow> ('e \<Rightarrow> error + key \<times> bool) \<Rightarrow> ('e \<Rightarrow> string) \<Rightarrow>
     (int \<Rightarrow> key list \<Rightarrow> 'e list \<Rightarrow> error option) \<Rightarrow> 'e src \<Rightarrow>
     key list \<times> error option \<times> (key list \<times> 'e list) list" where
  "PutMulti msg getStructKey fmtv put src =
     (case extractKeys getStructKey fmtv src True of
        Inl err \<Rightarrow> ([], Some err, [])
      | Inr keys \<Rightarrow>
          let st = PutMulti_run put keys (elems src)
          in if anyErr st then (keys, realError msg (multiErr st), calls st)
             else (keys, None, calls st))"

text \<open>
  \<open>Put\<close> wraps its argument in a one-element slice. The index expressions \<open>me[0]\<close> and
  \<open>ks[0]\<close> panic on an empty slice.
\<close>

definition Put ::
  "(error \<Rightarrow> string) \<Rightarrow> ('e \<Rightarrow> error + key \<times> bool) \<Rightarrow> ('e \<Rightarrow> string) \<Rightarrow>
     (int \<Rightarrow> key list \<Rightarrow> 'e list \<Rightarrow> error option) \<Rightarrow> 'e \<Rightarrow>
     (panic + key option \<times> error option) \<times> (key list \<times> 'e list) list" where
  "Put msg getStructKey fmtv put src =
     (case PutMulti msg getStructKey fmtv put (Slice [src]) of
        (ks, Some (MultiError me), cs) \<Rightarrow>
          (if me = [] then Inl IndexOutOfRange else Inr (None, me ! 0), cs)
      | (ks, Some e, cs) \<Rightarrow> (Inr (None, Some e), cs)
      | (ks, None, cs) \<Rightarrow>
          (if ks = [] then Inl IndexOutOfRange else Inr (Some (ks ! 0), None), cs))"

section \<open>DeleteMulti and Delete\<close>

text \<open>\<open>del i ks\<close> is the error with which the call of goroutine \<open>i\<close> returns.\<close>

definition DeleteMulti_worker ::
  "(int \<Rightarrow> key list \<Rightarrow> error option) \<Rightarrow> key list \<Rightarrow> int \<Rightarrow>
     (key list) outcomes \<Rightarrow> (key list) outcomes" where
  "DeleteMulti_worker del keys i st =
     (let lo = i * deleteMultiLimit;
          hi = (i + 1) * deleteMultiLimit;
          hi = (if hi > int (length keys) then int (length keys) else hi);
          dmerr = del i (slice keys lo hi)
      in record_failure lo hi dmerr (st\<lparr>calls := calls st @ [slice keys lo hi]\<rparr>))"

definition DeleteMulti_run ::
  "(int \<Rightarrow> key list \<Rightarrow> error option) \<Rightarrow> key list \<Rightarrow> (key list) outcomes" where
  "DeleteMulti_run del keys =
     (let goroutines = (int (length keys) - 1) sdiv deleteMultiLimit + 1
      in fold (DeleteMulti_worker del keys) [0..goroutines - 1]
           \<lparr>multiErr = replicate (length keys) None, anyErr = False, calls = []\<rparr>)"

definition DeleteMulti ::
  "(error \<Rightarrow> string) \<Rightarrow> (int \<Rightarrow> key list \<Rightarrow> error option) \<Rightarrow> key list \<Rightarrow>
     error option \<times> key list list" where
  "DeleteMulti msg del keys =
     (if length keys = 0 then (None, [])
      else let st = DeleteMulti_run del keys
           in if anyErr st then (realError msg (multiErr st), calls st)
              else (None, calls st))"

definition Delete ::
  "(error \<Rightarrow> string) \<Rightarrow> (int \<Rightarrow> key list \<Rightarrow> error option) \<Rightarrow> key \<Rightarrow>
     (panic + error option) \<times> key list list" where
  "Delete msg del k =
     (case DeleteMulti msg del [k] of
        (Some (MultiError me), cs) \<Rightarrow>
          (if me = [] then Inl IndexOutOfRange else Inr (me ! 0), cs)
      | (err, cs) \<Rightarrow> (Inr err, cs))"

section \<open>GetMulti and Get\<close>

text \<open>
  The slice expression with its panic, for the slices whose bounds do not come from
  their own length. The capacity of every slice here is its length.
\<close>

definition go_slice :: "'a list \<Rightarrow> int \<Rightarrow> int \<Rightarrow> panic + 'a list" where
  "go_slice xs lo hi =
     (if 0 \<le> lo \<and> lo \<le> hi \<and> hi \<le> int (length xs) then Inr (slice xs lo hi)
      else Inl SliceBoundsOutOfRange)"

text \<open>
  The branch inside a transaction, itemized error: the loop over \<open>i < len(keys)\<close>.
  \<open>merr[i]\<close> panics when the service's array is shorter than the batch.
\<close>

fun GetMulti_tx_loop ::
  "bool \<Rightarrow> error option list \<Rightarrow> nat list \<Rightarrow> 'c outcomes \<Rightarrow> panic + 'c outcomes" where
  "GetMulti_tx_loop IgnoreFieldMismatch merr [] st = Inr st"
| "GetMulti_tx_loop IgnoreFieldMismatch merr (i # rest) st =
     (if length merr \<le> i then Inl IndexOutOfRange
      else if merr ! i \<noteq> None \<and> (\<not> IgnoreFieldMismatch \<or> \<not> errFieldMismatch (merr ! i))
        then GetMulti_tx_loop IgnoreFieldMismatch merr rest
               (st\<lparr>anyErr := True, multiErr := (multiErr st)[i := merr ! i]\<rparr>)
      else GetMulti_tx_loop IgnoreFieldMismatch merr rest st)"

text \<open>
  \<open>getTx ks es\<close> is the error of the single service call made inside a transaction.
  The result is the outcomes after the branch, before \<open>realError\<close>.
\<close>

definition GetMulti_tx_run ::
  "bool \<Rightarrow> (key list \<Rightarrow> 'e list \<Rightarrow> error option) \<Rightarrow> key list \<Rightarrow> 'e list \<Rightarrow>
     panic + (key list \<times> 'e list) outcomes" where
  "GetMulti_tx_run IgnoreFieldMismatch getTx keys v =
     (let st = \<lparr>multiErr = replicate (length keys) None, anyErr = False, calls = [(keys, v)]\<rparr>
      in case getTx keys v of
           None \<Rightarrow> Inr st
         | Some (MultiError merr) \<Rightarrow>
             GetMulti_tx_loop IgnoreFieldMismatch merr [0..<length keys] st
         | Some e \<Rightarrow>
             Inr (st\<lparr>anyErr := True,
                    multiErr := broadcast (multiErr st) 0 (int (length keys)) (Some e)\<rparr>))"

text \<open>
  The loop \<open>for i, idx := range dixs[lo:hi]\<close> of a goroutine outside a transaction,
  over the pairs \<open>(i, idx)\<close>. The byte slice \<open>exists\<close> that the loop appends to is never
  read, so it is left out. \<open>merr[i]\<close> and \<open>multiErr[idx]\<close> panic out of range.
\<close>

fun GetMulti_range_loop ::
  "bool \<Rightarrow> error option list \<Rightarrow> (nat \<times> int) list \<Rightarrow> error option list \<Rightarrow>
     panic + error option list" where
  "GetMulti_range_loop IgnoreFieldMismatch merr [] m = Inr m"
| "GetMulti_range_loop IgnoreFieldMismatch merr ((i, idx) # rest) m =
     (if length merr \<le> i then Inl IndexOutOfRange
      else if merr ! i = None \<or> (IgnoreFieldMismatch \<and> errFieldMismatch (merr ! i))
        then GetMulti_range_loop IgnoreFieldMismatch merr rest m
      else if idx < 0 \<or> int (length m) \<le> idx then Inl IndexOutOfRange
      else GetMulti_range_loop IgnoreFieldMismatch merr rest (m[nat idx := merr ! i]))"

text \<open>
  The goroutine of the path outside a transaction. It reads the variables \<open>dskeys\<close>,
  \<open>dsdst\<close> and \<open>dixs\<close> of \<open>GetMulti\<close>, which are arguments here. \<open>get i ks es\<close> is the
  error with which the service call of goroutine \<open>i\<close> returns. The loop that writes a
  plain error into \<open>multiErr[j]\<close> for \<open>lo \<le> j < hi\<close> panics when the outcome array is
  shorter than \<open>hi\<close>.
\<close>

definition GetMulti_worker ::
  "bool \<Rightarrow> (int \<Rightarrow> key list \<Rightarrow> 'e list \<Rightarrow> error option) \<Rightarrow>
     key list \<Rightarrow> 'e list \<Rightarrow> int list \<Rightarrow> int \<Rightarrow>
     (key list \<times> 'e list) outcomes \<Rightarrow> panic + (key list \<times> 'e list) outcomes" where
  "GetMulti_worker IgnoreFieldMismatch get dskeys dsdst dixs i st =
     (let lo = i * getMultiLimit;
          hi = (i + 1) * getMultiLimit;
          hi = (if hi > int (length dskeys) then int (length dskeys) else hi)
      in case go_slice dskeys lo hi of
           Inl p \<Rightarrow> Inl p
         | Inr ks \<Rightarrow>
            (case go_slice dsdst lo hi of
               Inl p \<Rightarrow> Inl p
             | Inr es \<Rightarrow>
                (let st = st\<lparr>calls := calls st @ [(ks, es)]\<rparr>
                 in case get i ks es of
                      None \<Rightarrow> Inr st
                    | Some (MultiError merr) \<Rightarrow>
                       (case go_slice dixs lo hi of
                          Inl p \<Rightarrow> Inl p
                        | Inr ixs \<Rightarrow>
                           (case GetMulti_range_loop IgnoreFieldMismatch merr
                                   (zip [0..<length ixs] ixs) (multiErr st) of
                              Inl p \<Rightarrow> Inl p
                            | Inr m \<Rightarrow> Inr (st\<lparr>anyErr := True, multiErr := m\<rparr>)))
                    | Some e \<Rightarrow>
                       if lo < hi \<and> int (length (multiErr st)) < hi then Inl IndexOutOfRange
                       else Inr (st\<lparr>anyErr := True,
                                   multiErr := broadcast (multiErr st) lo hi (Some e)\<rparr>))))"

text \<open>Running goroutines one after the other; a panic in one ends the program.\<close>

fun run_workers :: "(int \<Rightarrow> 's \<Rightarrow> panic + 's) \<Rightarrow> int list \<Rightarrow> 's \<Rightarrow> panic + 's" where
  "run_workers w [] st = Inr st"
| "run_workers w (i # rest) st =
     (case w i st of Inl p \<Rightarrow> Inl p | Inr st' \<Rightarrow> run_workers w rest st')"

text \<open>
  Outside a transaction \<open>GetMulti\<close> declares \<open>dskeys\<close>, \<open>dsdst\<close> and \<open>dixs\<close> and never
  assigns to them: they are nil slices when the number of goroutines is computed and
  when the goroutines run.
\<close>

definition GetMulti_run ::
  "bool \<Rightarrow> (int \<Rightarrow> key list \<Rightarrow> 'e list \<Rightarrow> error option) \<Rightarrow> key list \<Rightarrow>
     panic + (key list \<times> 'e list) outcomes" where
  "GetMulti_run IgnoreFieldMismatch get keys =
     (let dskeys = [];
          dsdst = [];
          dixs = [];
          goroutines = (int (length dskeys) - 1) sdiv getMultiLimit + 1
      in run_workers (GetMulti_worker IgnoreFieldMismatch get dskeys dsdst dixs)
           [0..goroutines - 1]
           \<lparr>multiErr = replicate (length keys) None, anyErr = False, calls = []\<rparr>)"

text \<open>
  \<open>GetMulti\<close>: the error it returns and the service calls it made, or a panic.
  \<open>inTransaction\<close> is the field of the \<open>Gosto\<close> struct, \<open>IgnoreFieldMismatch\<close> the
  package variable.
\<close>

definition GetMulti ::
  "(error \<Rightarrow> string) \<Rightarrow> ('e \<Rightarrow> error + key \<times> bool) \<Rightarrow> ('e \<Rightarrow> string) \<Rightarrow> bool \<Rightarrow> bool \<Rightarrow>
     (key list \<Rightarrow> 'e list \<Rightarrow> error option) \<Rightarrow>
     (int \<Rightarrow> key list \<Rightarrow> 'e list \<Rightarrow> error option) \<Rightarrow> 'e src \<Rightarrow>
     panic + error option \<times> (key list \<times> 'e list) list" where
  "GetMulti msg getStructKey fmtv IgnoreFieldMismatch inTransaction getTx get dst =
     (case extractKeys getStructKey fmtv dst False of
        Inl err \<Rightarrow> Inr (Some err, [])
      | Inr keys \<Rightarrow>
          (case (if inTransaction then GetMulti_tx_run IgnoreFieldMismatch getTx keys (elems dst)
                 else GetMulti_run IgnoreFieldMismatch get keys) of
             Inl p \<Rightarrow> Inl p
           | Inr st \<Rightarrow>
               if anyErr st then Inr (realError msg (multiErr st), calls st)
               else Inr (None, calls st)))"

text \<open>
  \<open>Get\<close>: its argument is a pointer to an entity, or a value of another kind given by
  its \<open>%#v\<close> rendering. The entity that \<open>Get\<close> writes back through the pointer is not
  part of the model.
\<close>

datatype 'e dst = Ptr 'e | NotPtr string

definition Get ::
  "(error \<Rightarrow> string) \<Rightarrow> ('e \<Rightarrow> error + key \<times> bool) \<Rightarrow> ('e \<Rightarrow> string) \<Rightarrow> bool \<Rightarrow> bool \<Rightarrow>
     (key list \<Rightarrow> 'e list \<Rightarrow> error option) \<Rightarrow>
     (int \<Rightarrow> key list \<Rightarrow> 'e list \<Rightarrow> error option) \<Rightarrow> 'e dst \<Rightarrow>
     panic + error option \<times> (key list \<times> 'e list) list" where
  "Get msg getStructKey fmtv IgnoreFieldMismatch inTransaction getTx get dst =
     (case dst of
        NotPtr r \<Rightarrow> Inr (Some (OtherError (''Gosto: expected pointer to a struct, got '' @ r)), [])
      | Ptr e \<Rightarrow>
         (case GetMulti msg getStructKey fmtv IgnoreFieldMismatch inTransaction getTx get
                 (Slice [e]) of
            Inl p \<Rightarrow> Inl p
          | Inr (Some (MultiError me), cs) \<Rightarrow>
              if me = [] then Inl IndexOutOfRange else Inr (me ! 0, cs)
          | Inr (err, cs) \<Rightarrow> Inr (err, cs)))"

section \<open>GetAll and Iterator.Next\<close>

text \<open>
  The destination of \<open>GetAll\<close>: nil, a value that is not a pointer, a pointer to a value
  that is not a slice (each with the name of its kind), or a pointer to a slice, given
  by its elements, whether its element type is a pointer type, and the kind of the
  element type once the pointer is removed.
\<close>

datatype kind = Struct | OtherKind string

datatype 'e qdst =
    DstNil
  | DstNotPtr string
  | DstPtrNotSlice string
  | DstPtrSlice "'e list" bool kind

fun kind_name :: "kind \<Rightarrow> string" where
  "kind_name Struct = ''struct''"
| "kind_name (OtherKind s) = s"

text \<open>
  The loop of \<open>GetAll\<close> that stamps key \<open>k\<close> onto element \<open>vLenBefore + i\<close>.
  \<open>setStructKey\<close> is defined in another file of the package; here it takes the
  element and the key (a pointer, \<open>None\<close> for nil) and gives the element as it leaves
  it and its error. \<open>v.Index\<close> panics out of range.
\<close>

fun GetAll_stamp ::
  "('e \<Rightarrow> key option \<Rightarrow> 'e \<times> error option) \<Rightarrow> nat \<Rightarrow> key list \<Rightarrow> 'e list \<Rightarrow> panic + error + 'e list" where
  "GetAll_stamp setStructKey pos [] v = Inr (Inr v)"
| "GetAll_stamp setStructKey pos (k # ks) v =
     (if length v \<le> pos then Inl IndexOutOfRange
      else case setStructKey (v ! pos) (Some k) of
             (e, Some err) \<Rightarrow> Inr (Inl err)
           | (e, None) \<Rightarrow> GetAll_stamp setStructKey (Suc pos) ks (v[pos := e]))"

text \<open>
  \<open>getAll dst\<close> is the call \<open>g.DSClient.GetAll(g.Context, q, dst)\<close>: the keys, the
  error, and the elements of the destination slice after the call. \<open>zero\<close> is the new
  zero value that \<open>reflect.New(elemType)\<close> makes. The result is the keys and the error
  returned, or a panic.
\<close>

definition GetAll ::
  "bool \<Rightarrow> ('e qdst \<Rightarrow> key list \<times> error option \<times> 'e list) \<Rightarrow>
     ('e \<Rightarrow> key option \<Rightarrow> 'e \<times> error option) \<Rightarrow> 'e \<Rightarrow> 'e qdst \<Rightarrow>
     panic + key list \<times> error option" where
  "GetAll IgnoreFieldMismatch getAll setStructKey zero dst =
     (case dst of
        DstNotPtr kn \<Rightarrow>
          Inr ([], Some (OtherError
            (''Gosto: Expected dst to be a pointer to a slice or nil, got instead: '' @ kn)))
      | DstPtrNotSlice kn \<Rightarrow>
          Inr ([], Some (OtherError
            (''Gosto: Expected dst to be a pointer to a slice or nil, got instead: '' @ kn)))
      | _ \<Rightarrow>
         (let vLenBefore = (case dst of DstPtrSlice v0 ptr k \<Rightarrow> length v0 | _ \<Rightarrow> 0);
              (keys, err0, v) = getAll dst;
              stop = (err0 \<noteq> None \<and> \<not> errFieldMismatch err0);
              err = (if errFieldMismatch err0 \<and> IgnoreFieldMismatch then None else err0)
          in if stop then Inr (keys, err0)
             else if dst = DstNil \<or> length keys = 0 then Inr (keys, err)
             else (case dst of
                     DstPtrSlice v0 ptr k \<Rightarrow>
                       if k \<noteq> Struct
                       then Inr (keys, Some (OtherError
                              (''Gosto: Expected struct, got instead: '' @ kind_name k)))
                       else (case GetAll_stamp setStructKey vLenBefore keys
                                    (v @ replicate (length keys) zero) of
                               Inl p \<Rightarrow> Inl p
                             | Inr (Inl e) \<Rightarrow> Inr ([], Some e)
                             | Inr (Inr v') \<Rightarrow> Inr (keys, err))
                   | _ \<Rightarrow> Inr (keys, err))))"

text \<open>
  \<open>Iterator.Next\<close>: \<open>inner dst\<close> is \<open>t.i.Next(dst)\<close>, giving the next key (or nil),
  the error, and the destination as the datastore iterator leaves it. The destination
  is \<open>None\<close> for nil. The result is the key and the error returned, with the
  destination as \<open>Next\<close> leaves it.
\<close>

definition Next ::
  "bool \<Rightarrow> ('d option \<Rightarrow> key option \<times> error option \<times> 'd option) \<Rightarrow>
     ('d \<Rightarrow> key option \<Rightarrow> 'd \<times> error option) \<Rightarrow> 'd option \<Rightarrow>
     key option \<times> error option \<times> 'd option" where
  "Next IgnoreFieldMismatch inner setStructKey dst =
     (let (k, err, dst') = inner dst
      in if err \<noteq> None \<and> (\<not> IgnoreFieldMismatch \<or> \<not> errFieldMismatch err)
         then (k, err, dst')
         else (case dst' of
                 None \<Rightarrow> (k, None, None)
               | Some d \<Rightarrow> (k, None, Some (fst (setStructKey d k)))))"

text \<open>
  The goroutines of \<open>PutMulti\<close> and \<open>DeleteMulti\<close> have one shape: compute the bounds
  of chunk \<open>i\<close>, make the service call \<open>req i\<close>, and record its error \<open>resp i\<close>. The
  lemmas \<open>PutMulti_worker_eq\<close> and \<open>DeleteMulti_worker_eq\<close> show that each goroutine
  is an instance of this shape, so that the results about writing are proved once.
\<close>

definition chunk_worker ::
  "int \<Rightarrow> int \<Rightarrow> (int \<Rightarrow> error option) \<Rightarrow> (int \<Rightarrow> 'c) \<Rightarrow> int \<Rightarrow> 'c outcomes \<Rightarrow> 'c outcomes" where
  "chunk_worker limit n resp req i st =
     record_failure (fst (chunk limit n i)) (snd (chunk limit n i)) (resp i)
       (st\<lparr>calls := calls st @ [req i]\<rparr>)"

section \<open>Example entities\<close>

text \<open>
  Modelled from the spec: \<open>getStructKey\<close> is in a file of the package that is not at
  hand. The results below hold for every \<open>getStructKey\<close>; the examples use this one.
  An entity has a numeric id (0 when it is not set), or a string id (empty when it is
  blank, and then reported as an explicit string identity), or it is not a struct
  pointer, for which key resolution fails. \<open>example_fmtv\<close> is a rendering of the
  entities and \<open>example_msg\<close> a rendering of the errors for the examples.
\<close>

datatype entity = WithID int | WithName string | NotAStruct

fun example_getStructKey :: "entity \<Rightarrow> error + key \<times> bool" where
  "example_getStructKey (WithID n) = Inr (Key ''Entity'' n [] None [], False)"
| "example_getStructKey (WithName s) = Inr (Key ''Entity'' 0 s None [], True)"
| "example_getStructKey NotAStruct = Inl (OtherError ''Gosto: expected pointer to struct'')"

fun example_fmtv :: "entity \<Rightarrow> string" where
  "example_fmtv (WithID n) = (if n = 0 then ''&{0}'' else ''&{id}'')"
| "example_fmtv (WithName s) = ''&{'' @ s @ ''}''"
| "example_fmtv NotAStruct = ''0''"

fun example_msg :: "error \<Rightarrow> string" where
  "example_msg (ErrFieldMismatch st fn r) = ''datastore: cannot load field '' @ fn"
| "example_msg ErrInvalidEntityType = ''datastore: invalid entity type''"
| "example_msg ErrNoSuchEntity = ''datastore: no such entity''"
| "example_msg (OtherError s) = s"
| "example_msg (MultiError m) = ''datastore: multiple errors''"

text \<open>
  Services for the examples: a store that holds no entity reports every key it is asked
  for as absent, in an itemized error; a store that accepts every write. An iterator
  that yields a key without error, and a \<open>setStructKey\<close> that fails.
\<close>

definition example_empty_store :: "key list \<Rightarrow> entity list \<Rightarrow> error option" where
  "example_empty_store ks es =
     (if ks = [] then None else Some (MultiError (replicate (length ks) (Some ErrNoSuchEntity))))"

definition example_service :: "int \<Rightarrow> key list \<Rightarrow> entity list \<Rightarrow> error option" where
  "example_service i ks es = example_empty_store ks es"

definition example_put_ok :: "int \<Rightarrow> key list \<Rightarrow> entity list \<Rightarrow> error option" where
  "example_put_ok i ks es = None"

definition example_inner ::
  "entity option \<Rightarrow> key option \<times> error option \<times> entity option" where
  "example_inner dst = (Some (Key ''Entity'' 7 [] None []), None, dst)"

definition example_setStructKey_fails :: "entity \<Rightarrow> key option \<Rightarrow> entity \<times> error option" where
  "example_setStructKey_fails d k = (d, Some (OtherError ''Gosto: set key failed''))"

text \<open>
  A store whose entities have a field that the struct no longer has reports a field
  mismatch for every key it is asked for; a service that is unavailable fails every
  call with a plain error; a service that rejects every entity it is given, in an
  itemized error; a delete service whose second call reports its first key as absent.
\<close>

definition example_mismatch :: error where
  "example_mismatch = ErrFieldMismatch ''Entity'' ''Old'' ''no such struct field''"

definition example_stale_store :: "key list \<Rightarrow> entity list \<Rightarrow> error option" where
  "example_stale_store ks es =
     (if ks = [] then None else Some (MultiError (replicate (length ks) (Some example_mismatch))))"


definition example_stale_service :: "int \<Rightarrow> key list \<Rightarrow> entity list \<Rightarrow> error option" where
  "example_stale_service i ks es = example_stale_store ks es"




section \<open>The collapse rules as the specification words them\<close>

text \<open>
  The outcomes are uniform when every slot agrees with the first one in nil-ness and,
  where both are errors, in text.
\<close>

definition uniform :: "(error \<Rightarrow> string) \<Rightarrow> error option list \<Rightarrow> bool" where
  "uniform msg m =
     (\<forall>e \<in> set m. (e = None \<longleftrightarrow> hd m = None) \<and>
        (\<forall>a b. e = Some a \<and> hd m = Some b \<longrightarrow> msg a = msg b))"

text \<open>The kinds that stay itemized: field mismatch, invalid entity type, not found.\<close>

definition itemized_kind :: "error option \<Rightarrow> bool" where
  "itemized_kind e =
     ((\<exists>st fn r. e = Some (ErrFieldMismatch st fn r)) \<or>
      e = Some ErrInvalidEntityType \<or> e = Some ErrNoSuchEntity)"

definition collapse_rules :: "(error \<Rightarrow> string) \<Rightarrow> error option list \<Rightarrow> error option" where
  "collapse_rules msg m =
     (if m = [] then None
      else if \<forall>e \<in> set m. e = None then None
      else if uniform msg m \<and> itemized_kind (hd m) then Some (MultiError m)
      else if uniform msg m then hd m
      else Some (MultiError m))"

section \<open>Results about realError\<close>

lemma errFieldMismatch_iff:
  "errFieldMismatch e \<longleftrightarrow> (\<exists>st fn r. e = Some (ErrFieldMismatch st fn r))"
  by (cases e rule: errFieldMismatch.cases) simp_all

lemma realError_loop_iff:
  "realError_loop msg init es \<longleftrightarrow>
     (\<forall>e \<in> set es. (e = None \<longleftrightarrow> init = None) \<and>
        (\<forall>a b. e = Some a \<and> init = Some b \<longrightarrow> msg a = msg b))"
proof (induction es)
  case Nil
  show ?case by simp
next
  case (Cons e es)
  show ?case
  proof (cases init)
    case None
    with Cons show ?thesis by (cases e) auto
  next
    case (Some b)
    with Cons show ?thesis by (cases e) auto
  qed
qed

lemma uniform_Cons:
  "uniform msg (init # rest) \<longleftrightarrow> realError_loop msg init rest"
  by (auto simp: uniform_def realError_loop_iff)

lemma itemized_kind_iff:
  "itemized_kind e \<longleftrightarrow>
     errFieldMismatch e \<or> e = Some ErrInvalidEntityType \<or> e = Some ErrNoSuchEntity"
  by (simp add: itemized_kind_def errFieldMismatch_iff)

lemma all_nil_uniform:
  assumes "\<forall>e \<in> set (init # rest). e = None"
  shows "init = None" and "realError_loop msg init rest"
  using assms by (auto simp: realError_loop_iff)

text \<open>
  Claim C1. For every outcome array, \<open>realError\<close> follows the collapse rules in their
  order: the empty array gives nil; an all-nil array gives nil; a uniform array whose
  first (common) error is a field mismatch, the invalid-entity-type sentinel or the
  not-found sentinel is returned whole; a uniform array of any other kind gives its
  first error; a mixed array is returned whole.
\<close>

theorem realError_collapse_rules:
  "realError msg m = collapse_rules msg m"
proof (cases m)
  case Nil
  then show ?thesis by (simp add: realError_def collapse_rules_def)
next
  case (Cons init rest)
  show ?thesis
  proof (cases "\<forall>e \<in> set m. e = None")
    case True
    with Cons have nil: "\<forall>e \<in> set (init # rest). e = None"
      by simp
    have "init = None"
      by (rule all_nil_uniform(1) [OF nil])
    moreover have "realError_loop msg init rest"
      by (rule all_nil_uniform(2) [OF nil])
    ultimately show ?thesis
      using True Cons by (simp add: realError_def collapse_rules_def)
  next
    case False
    with Cons show ?thesis
      unfolding realError_def collapse_rules_def
      by (simp add: uniform_Cons itemized_kind_iff)
  qed
qed

theorem realError_collapse_rules_witness:
  "realError example_msg
     [Some ErrNoSuchEntity, Some ErrNoSuchEntity]
     = Some (MultiError [Some ErrNoSuchEntity, Some ErrNoSuchEntity]) \<and>
   realError example_msg
     [Some (OtherError ''invalid key''), Some (OtherError ''invalid key'')]
     = Some (OtherError ''invalid key'') \<and>
   realError example_msg
     [None, Some (OtherError ''a''), Some (OtherError ''b'')]
     = Some (MultiError [None, Some (OtherError ''a''), Some (OtherError ''b'')]) \<and>
   realError example_msg [None, None, None] = None"
  unfolding realError_collapse_rules
  by (simp add: collapse_rules_def uniform_def itemized_kind_def)

text \<open>
  Claim C10. For every error value and every index \<open>idx \<ge> 0\<close>, \<open>NotFound\<close> returns
  (it does not panic), and what it returns is true exactly when the error is a
  \<open>MultiError\<close>, \<open>idx\<close> is below its length and slot \<open>idx\<close> is the not-found sentinel;
  so it is false for every other error and for every index at or past the length.
\<close>

theorem NotFound_total:
  "0 \<le> idx \<Longrightarrow>
     NotFound err idx =
       Inr (\<exists>merr. err = Some (MultiError merr) \<and> idx < int (length merr) \<and>
              merr ! nat idx = Some ErrNoSuchEntity)"
  by (auto simp: NotFound_def split: option.splits error.splits)

theorem NotFound_total_witness:
  "NotFound (Some (MultiError [None, Some ErrNoSuchEntity])) 1 = Inr True \<and>
   NotFound (Some (MultiError [None, Some ErrNoSuchEntity])) 0 = Inr False \<and>
   NotFound (Some (MultiError [None, Some ErrNoSuchEntity])) 2 = Inr False \<and>
   NotFound (Some ErrNoSuchEntity) 0 = Inr False \<and>
   NotFound None 0 = Inr False"
  using NotFound_total [of 1 "Some (MultiError [None, Some ErrNoSuchEntity])"]
    NotFound_total [of 0 "Some (MultiError [None, Some ErrNoSuchEntity])"]
    NotFound_total [of 2 "Some (MultiError [None, Some ErrNoSuchEntity])"]
    NotFound_total [of 0 "Some ErrNoSuchEntity"]
    NotFound_total [of 0 None]
  by simp

section \<open>Writing into the outcome array\<close>

lemma length_fold_update:
  "length (fold (\<lambda>k m. m[f k := g k]) ks m) = length m"
  by (induction ks arbitrary: m) simp_all

lemma nth_fold_update_const:
  "j < length m \<Longrightarrow>
     fold (\<lambda>k m. m[f k := v]) ks m ! j = (if j \<in> f ` set ks then v else m ! j)"
  by (induction ks arbitrary: m) (auto simp: nth_list_update)

lemma nth_fold_update_shift:
  "j < length m \<Longrightarrow>
     fold (\<lambda>k m. m[a + k := g k]) ks m ! j =
       (if a \<le> j \<and> j - a \<in> set ks then g (j - a) else m ! j)"
  by (induction ks arbitrary: m) (auto simp: nth_list_update)

lemma length_broadcast: "length (broadcast m lo hi err) = length m"
  by (simp add: broadcast_def length_fold_update)

lemma nth_broadcast:
  assumes "0 \<le> lo" "j < length m"
  shows "broadcast m lo hi err ! j = (if lo \<le> int j \<and> int j < hi then err else m ! j)"
proof -
  have "j \<in> nat ` set [lo..hi - 1] \<longleftrightarrow> lo \<le> int j \<and> int j < hi"
  proof
    assume "j \<in> nat ` set [lo..hi - 1]"
    then obtain k where "lo \<le> k" "k \<le> hi - 1" "j = nat k" by auto
    with assms show "lo \<le> int j \<and> int j < hi" by simp
  next
    assume "lo \<le> int j \<and> int j < hi"
    then have "int j \<in> set [lo..hi - 1]" by simp
    then have "nat (int j) \<in> nat ` set [lo..hi - 1]" by (rule imageI)
    then show "j \<in> nat ` set [lo..hi - 1]" by simp
  qed
  with assms show ?thesis
    by (simp add: broadcast_def nth_fold_update_const)
qed

lemma length_copy_into: "length (copy_into m lo hi merr) = length m"
  by (simp add: copy_into_def length_fold_update)

lemma nth_copy_into:
  assumes "0 \<le> lo" "j < length m"
  shows "copy_into m lo hi merr ! j =
           (if lo \<le> int j \<and> int j < lo + min (hi - lo) (int (length merr)) \<and> int j < hi
            then merr ! (j - nat lo) else m ! j)"
  using assms by (auto simp: copy_into_def nth_fold_update_shift)

section \<open>Chunk bounds\<close>

lemma fst_chunk: "fst (chunk limit n i) = i * limit"
  by (simp add: chunk_def Let_def)

lemma snd_chunk: "snd (chunk limit n i) = min ((i + 1) * limit) n"
  by (simp add: chunk_def Let_def min_def)

lemma chunk_disjoint:
  assumes L: "0 < limit" and ne: "i \<noteq> i'"
    and j: "fst (chunk limit n i) \<le> j" "j < snd (chunk limit n i)"
  shows "\<not> (fst (chunk limit n i') \<le> j \<and> j < snd (chunk limit n i'))"
proof
  assume "fst (chunk limit n i') \<le> j \<and> j < snd (chunk limit n i')"
  then have a: "i' * limit \<le> j" "j < (i' + 1) * limit"
    by (simp_all add: fst_chunk snd_chunk)
  from j have b: "i * limit \<le> j" "j < (i + 1) * limit"
    by (simp_all add: fst_chunk snd_chunk)
  from ne consider "i + 1 \<le> i'" | "i' + 1 \<le> i" by linarith
  then show False
  proof cases
    case 1
    then have "(i + 1) * limit \<le> i' * limit" using L by (simp add: mult_right_mono)
    with a b show False by linarith
  next
    case 2
    then have "(i' + 1) * limit \<le> i * limit" using L by (simp add: mult_right_mono)
    with a b show False by linarith
  qed
qed

lemma goroutines_pos:
  assumes "0 < limit" "1 \<le> n"
  shows "goroutines limit n = (n - 1) div limit + 1"
  using assms by (simp add: goroutines_def signed_divide_int_def sgn_if)

lemma goroutines_empty: "1 < limit \<Longrightarrow> goroutines limit 0 = 1"
  by (simp add: goroutines_def signed_divide_int_def sgn_if)

lemma chunk_bounds:
  assumes L: "0 < limit" and n: "1 \<le> n" and i: "0 \<le> i" "i < goroutines limit n"
  shows "0 \<le> fst (chunk limit n i)" and "fst (chunk limit n i) < snd (chunk limit n i)"
    and "snd (chunk limit n i) \<le> n" and "snd (chunk limit n i) - fst (chunk limit n i) \<le> limit"
proof -
  from i L n have "i \<le> (n - 1) div limit" by (simp add: goroutines_pos)
  then have "i * limit \<le> ((n - 1) div limit) * limit" using L by (simp add: mult_right_mono)
  also have "\<dots> \<le> n - 1"
  proof -
    have "(n - 1) div limit * limit + (n - 1) mod limit = n - 1" by simp
    moreover have "0 \<le> (n - 1) mod limit" using L by simp
    ultimately show ?thesis by linarith
  qed
  finally have lt: "i * limit < n" by simp
  show "0 \<le> fst (chunk limit n i)" using i L by (simp add: fst_chunk)
  show "fst (chunk limit n i) < snd (chunk limit n i)"
    using lt L by (simp add: fst_chunk snd_chunk algebra_simps)
  show "snd (chunk limit n i) \<le> n" by (simp add: snd_chunk)
  show "snd (chunk limit n i) - fst (chunk limit n i) \<le> limit"
    by (simp add: fst_chunk snd_chunk algebra_simps)
qed

text \<open>The slice expressions of the goroutines of a chunk plan do not panic.\<close>

lemma chunk_slice_ok:
  assumes L: "0 < limit" and i: "0 \<le> i" "i < goroutines limit (int (length xs))"
  shows "go_slice xs (fst (chunk limit (int (length xs)) i)) (snd (chunk limit (int (length xs)) i))
           = Inr (slice xs (fst (chunk limit (int (length xs)) i))
                   (snd (chunk limit (int (length xs)) i)))"
proof (cases "xs = []")
  case True
  have "0 \<le> 1 div limit" using L by (simp add: pos_imp_zdiv_nonneg_iff)
  then have "goroutines limit 0 \<le> 1"
    using L by (simp add: goroutines_def signed_divide_int_def sgn_if)
  with i True have "i = 0" by simp
  with True L show ?thesis by (simp add: go_slice_def fst_chunk snd_chunk)
next
  case False
  then have n: "1 \<le> int (length xs)" by (cases xs) simp_all
  from chunk_bounds [OF L n i] show ?thesis by (simp add: go_slice_def)
qed

section \<open>The goroutines of PutMulti and DeleteMulti\<close>

lemma rf_length [simp]:
  "length (multiErr (record_failure lo hi err st)) = length (multiErr st)"
  by (simp add: record_failure_def length_broadcast length_copy_into
      split: option.split error.split)

lemma rf_calls [simp]: "calls (record_failure lo hi err st) = calls st"
  by (simp add: record_failure_def split: option.split error.split)

lemma rf_anyErr: "anyErr (record_failure lo hi err st) \<longleftrightarrow> anyErr st \<or> err \<noteq> None"
  by (simp add: record_failure_def split: option.split error.split)

lemma rf_outside:
  assumes "0 \<le> lo" "j < length (multiErr st)" "\<not> (lo \<le> int j \<and> int j < hi)"
  shows "multiErr (record_failure lo hi err st) ! j = multiErr st ! j"
  using assms
  by (auto simp: record_failure_def nth_broadcast nth_copy_into
      split: option.split error.split)

lemma rf_plain:
  assumes "0 \<le> lo" "j < length (multiErr st)" "lo \<le> int j" "int j < hi"
    and "\<forall>merr. e \<noteq> MultiError merr"
  shows "multiErr (record_failure lo hi (Some e) st) ! j = Some e"
  using assms
  by (simp add: record_failure_def nth_broadcast split: error.split)


lemma cw_length [simp]:
  "length (multiErr (fold (chunk_worker limit n resp req) js st)) = length (multiErr st)"
  by (induction js arbitrary: st) (simp_all add: chunk_worker_def)

lemma cw_calls:
  "calls (fold (chunk_worker limit n resp req) js st) = calls st @ map req js"
  by (induction js arbitrary: st) (simp_all add: chunk_worker_def)

lemma cw_anyErr:
  "anyErr (fold (chunk_worker limit n resp req) js st) \<longleftrightarrow>
     anyErr st \<or> (\<exists>i \<in> set js. resp i \<noteq> None)"
  by (induction js arbitrary: st) (auto simp: chunk_worker_def rf_anyErr)

lemma cw_untouched:
  assumes "\<forall>i \<in> set js. 0 \<le> i" "0 < limit" "j < length (multiErr st)"
    and "\<forall>i \<in> set js. \<not> (fst (chunk limit n i) \<le> int j \<and> int j < snd (chunk limit n i))"
  shows "multiErr (fold (chunk_worker limit n resp req) js st) ! j = multiErr st ! j"
  using assms
proof (induction js arbitrary: st)
  case Nil
  show ?case by simp
next
  case (Cons i js)
  let ?st = "chunk_worker limit n resp req i st"
  have len: "j < length (multiErr ?st)" using Cons.prems by (simp add: chunk_worker_def)
  have "multiErr (fold (chunk_worker limit n resp req) js ?st) ! j = multiErr ?st ! j"
    using Cons.prems len by (intro Cons.IH) simp_all
  also have "\<dots> = multiErr st ! j"
    unfolding chunk_worker_def using Cons.prems
    by (subst rf_outside) (simp_all add: fst_chunk)
  finally show ?case by simp
qed



lemma PutMulti_worker_eq:
  "PutMulti_worker put keys v =
     chunk_worker putMultiLimit (int (length keys))
       (\<lambda>i. put i
          (slice keys (fst (chunk putMultiLimit (int (length keys)) i))
             (snd (chunk putMultiLimit (int (length keys)) i)))
          (slice v (fst (chunk putMultiLimit (int (length keys)) i))
             (snd (chunk putMultiLimit (int (length keys)) i))))
       (\<lambda>i. (slice keys (fst (chunk putMultiLimit (int (length keys)) i))
                (snd (chunk putMultiLimit (int (length keys)) i)),
              slice v (fst (chunk putMultiLimit (int (length keys)) i))
                (snd (chunk putMultiLimit (int (length keys)) i))))"
  by (intro ext) (simp add: PutMulti_worker_def chunk_worker_def chunk_def Let_def)

lemma DeleteMulti_worker_eq:
  "DeleteMulti_worker del keys =
     chunk_worker deleteMultiLimit (int (length keys))
       (\<lambda>i. del i
          (slice keys (fst (chunk deleteMultiLimit (int (length keys)) i))
             (snd (chunk deleteMultiLimit (int (length keys)) i))))
       (\<lambda>i. slice keys (fst (chunk deleteMultiLimit (int (length keys)) i))
                (snd (chunk deleteMultiLimit (int (length keys)) i)))"
  by (intro ext) (simp add: DeleteMulti_worker_def chunk_worker_def chunk_def Let_def)

lemma PutMulti_run_eq:
  "PutMulti_run put keys v =
     fold (PutMulti_worker put keys v) [0..goroutines putMultiLimit (int (length keys)) - 1]
       \<lparr>multiErr = replicate (length keys) None, anyErr = False, calls = []\<rparr>"
  by (simp add: PutMulti_run_def goroutines_def Let_def)

lemma DeleteMulti_run_eq:
  "DeleteMulti_run del keys =
     fold (DeleteMulti_worker del keys) [0..goroutines deleteMultiLimit (int (length keys)) - 1]
       \<lparr>multiErr = replicate (length keys) None, anyErr = False, calls = []\<rparr>"
  by (simp add: DeleteMulti_run_def goroutines_def Let_def)





section \<open>The chunk plan\<close>

lemma plan_prefix_indices:
  assumes L: "0 < limit" and n: "1 \<le> n"
  shows "int m \<le> goroutines limit n \<Longrightarrow>
     concat (map (\<lambda>i. [fst (chunk limit n i)..snd (chunk limit n i) - 1]) [0..int m - 1])
       = [0..min (int m * limit) n - 1]"
proof (induction m)
  case 0
  then show ?case using n by simp
next
  case (Suc m)
  let ?lo = "fst (chunk limit n (int m))" and ?hi = "snd (chunk limit n (int m))"
  have m: "0 \<le> int m" "int m < goroutines limit n" using Suc.prems by simp_all
  note b = chunk_bounds [OF L n m]
  have up: "[0..int (Suc m) - 1] = [0..int m - 1] @ [int m]"
    using upto_rec2 [of 0 "int m"] by simp
  have lo: "min (int m * limit) n = ?lo" using b by (simp add: fst_chunk snd_chunk)
  have hi: "min (int (Suc m) * limit) n = ?hi" by (simp add: snd_chunk algebra_simps)
  have "concat (map (\<lambda>i. [fst (chunk limit n i)..snd (chunk limit n i) - 1]) [0..int (Suc m) - 1])
      = [0..?lo - 1] @ [?lo..?hi - 1]"
    using Suc.IH m lo unfolding up by simp
  also have "\<dots> = [0..?hi - 1]"
    using b upto_split1 [of 0 ?lo "?hi - 1"] by simp
  finally show ?case unfolding hi .
qed

lemma goroutines_covers:
  assumes L: "0 < limit" and n: "1 \<le> n"
  shows "n \<le> goroutines limit n * limit" and "0 < goroutines limit n"
proof -
  have "(n - 1) div limit * limit + (n - 1) mod limit = n - 1" by simp
  moreover have "(n - 1) mod limit < limit" using L by simp
  ultimately have "n - 1 < (n - 1) div limit * limit + limit" by linarith
  then show "n \<le> goroutines limit n * limit"
    using L n by (simp add: goroutines_pos algebra_simps)
  have "0 \<le> (n - 1) div limit" using L n by (simp add: pos_imp_zdiv_nonneg_iff)
  then show "0 < goroutines limit n" using L n by (simp add: goroutines_pos)
qed

lemma plan_covers:
  assumes L: "0 < limit" and n: "1 \<le> n"
  shows "concat (map (\<lambda>(lo, hi). [lo..hi - 1]) (plan limit n)) = [0..n - 1]"
proof -
  let ?g = "goroutines limit n"
  have g: "0 < ?g" "n \<le> ?g * limit" using goroutines_covers [OF L n] by simp_all
  have "concat (map (\<lambda>(lo, hi). [lo..hi - 1]) (plan limit n))
      = concat (map (\<lambda>i. [fst (chunk limit n i)..snd (chunk limit n i) - 1]) [0..int (nat ?g) - 1])"
    using g by (simp add: plan_def comp_def case_prod_beta)
  also have "\<dots> = [0..min (int (nat ?g) * limit) n - 1]"
    using g by (intro plan_prefix_indices [OF L n]) simp
  also have "\<dots> = [0..n - 1]" using g by simp
  finally show ?thesis .
qed

lemma length_plan:
  assumes L: "0 < limit" and n: "1 \<le> n"
  shows "int (length (plan limit n)) = (n + limit - 1) div limit"
proof -
  have "(n - 1 + limit) div limit = (n - 1) div limit + 1"
    using L div_add_self2 [of limit "n - 1"] by simp
  moreover have "0 < goroutines limit n" using goroutines_covers [OF L n] by simp
  ultimately show ?thesis
    using L n by (simp add: plan_def goroutines_pos algebra_simps)
qed

lemma plan_prefix_slices:
  assumes L: "0 < limit" and n: "1 \<le> int (length xs)"
  shows "int m \<le> goroutines limit (int (length xs)) \<Longrightarrow>
     concat (map (\<lambda>i. slice xs (fst (chunk limit (int (length xs)) i))
                         (snd (chunk limit (int (length xs)) i))) [0..int m - 1])
       = take (nat (min (int m * limit) (int (length xs)))) xs"
proof (induction m)
  case 0
  then show ?case by simp
next
  case (Suc m)
  let ?n = "int (length xs)"
  let ?lo = "fst (chunk limit ?n (int m))" and ?hi = "snd (chunk limit ?n (int m))"
  have m: "0 \<le> int m" "int m < goroutines limit ?n" using Suc.prems by simp_all
  note b = chunk_bounds [OF L n m]
  have up: "[0..int (Suc m) - 1] = [0..int m - 1] @ [int m]"
    using upto_rec2 [of 0 "int m"] by simp
  have lo: "min (int m * limit) ?n = ?lo" using b by (simp add: fst_chunk snd_chunk)
  have hi: "min (int (Suc m) * limit) ?n = ?hi" by (simp add: snd_chunk algebra_simps)
  have "concat (map (\<lambda>i. slice xs (fst (chunk limit ?n i)) (snd (chunk limit ?n i)))
          [0..int (Suc m) - 1])
      = take (nat ?lo) xs @ slice xs ?lo ?hi"
    using Suc.IH m lo unfolding up by simp
  also have "\<dots> = take (nat ?lo + nat (?hi - ?lo)) xs"
    by (simp add: slice_def take_add)
  also have "nat ?lo + nat (?hi - ?lo) = nat ?hi" using b by linarith
  finally show ?case unfolding hi .
qed

lemma plan_slices:
  assumes L: "0 < limit" and n: "1 \<le> int (length xs)"
  shows "concat (map (\<lambda>(lo, hi). slice xs lo hi) (plan limit (int (length xs)))) = xs"
proof -
  let ?n = "int (length xs)"
  let ?g = "goroutines limit ?n"
  have g: "0 < ?g" "?n \<le> ?g * limit" using goroutines_covers [OF L n] by simp_all
  have "concat (map (\<lambda>(lo, hi). slice xs lo hi) (plan limit ?n))
      = concat (map (\<lambda>i. slice xs (fst (chunk limit ?n i)) (snd (chunk limit ?n i)))
          [0..int (nat ?g) - 1])"
    using g by (simp add: plan_def comp_def case_prod_beta)
  also have "\<dots> = take (nat (min (int (nat ?g) * limit) ?n)) xs"
    using g by (intro plan_prefix_slices [OF L n]) simp
  also have "\<dots> = xs" using g by simp
  finally show ?thesis .
qed

lemma calls_PutMulti_run:
  "calls (PutMulti_run put keys v) =
     map (\<lambda>(lo, hi). (slice keys lo hi, slice v lo hi)) (plan putMultiLimit (int (length keys)))"
  by (simp add: PutMulti_run_eq PutMulti_worker_eq cw_calls plan_def comp_def case_prod_beta)

lemma calls_DeleteMulti_run:
  "calls (DeleteMulti_run del keys) =
     map (\<lambda>(lo, hi). slice keys lo hi) (plan deleteMultiLimit (int (length keys)))"
  by (simp add: DeleteMulti_run_eq DeleteMulti_worker_eq cw_calls plan_def comp_def case_prod_beta)

lemma plan_empty: "plan putMultiLimit 0 = [(0, 0)]"
  by (simp add: plan_def goroutines_def putMultiLimit_def chunk_def signed_divide_int_def)

section \<open>Key extraction\<close>


text \<open>The loop stops at the first element that fails one of its two tests.\<close>

lemma extractKeys_loop_pass:
  assumes "g e = Inr (k, h)" "\<not> (\<not> b \<and> Incomplete k)" "\<not> (b \<and> Incomplete k \<and> h)"
  shows "extractKeys_loop g f b (e # v) =
           (case extractKeys_loop g f b v of Inl err \<Rightarrow> Inl err | Inr keys \<Rightarrow> Inr (k # keys))"
  using assms by auto

lemma extractKeys_loop_fail:
  assumes "g e = Inr (k, h)" "(\<not> b \<and> Incomplete k) \<or> (b \<and> Incomplete k \<and> h)"
  shows "extractKeys_loop g f b (e # v) =
           Inl (if b then OtherError ''Gosto: empty string id on put''
                else OtherError (''Gosto: cannot find a key for struct - '' @ f e))"
  using assms by auto

lemma extractKeys_loop_stops_append:
  assumes "\<forall>x \<in> set pre. \<exists>k h. g x = Inr (k, h) \<and> \<not> (\<not> b \<and> Incomplete k) \<and>
             \<not> (b \<and> Incomplete k \<and> h)"
    and "g e = Inr (k, h)"
    and "(\<not> b \<and> Incomplete k) \<or> (b \<and> Incomplete k \<and> h)"
  shows "extractKeys_loop g f b (pre @ e # post) =
           Inl (if b then OtherError ''Gosto: empty string id on put''
                else OtherError (''Gosto: cannot find a key for struct - '' @ f e))"
  using assms(1)
proof (induction pre)
  case Nil
  show ?case using extractKeys_loop_fail [where g = g and e = e, OF assms(2,3)] by simp
next
  case (Cons x pre)
  then obtain k0 h0 where x: "g x = Inr (k0, h0)" "\<not> (\<not> b \<and> Incomplete k0)"
    "\<not> (b \<and> Incomplete k0 \<and> h0)"
    by auto
  have "extractKeys_loop g f b (pre @ e # post) =
      Inl (if b then OtherError ''Gosto: empty string id on put''
           else OtherError (''Gosto: cannot find a key for struct - '' @ f e))"
    using Cons by simp
  then show ?case
    using extractKeys_loop_pass [where g = g and e = x and f = f and v = "pre @ e # post", OF x] by simp
qed

lemma extractKeys_loop_stops:
  assumes i: "i < length v"
    and prev: "\<forall>j<i. \<exists>k h. g (v ! j) = Inr (k, h) \<and> \<not> (\<not> b \<and> Incomplete k) \<and>
             \<not> (b \<and> Incomplete k \<and> h)"
    and at: "g (v ! i) = Inr (k, h)"
    and fails: "(\<not> b \<and> Incomplete k) \<or> (b \<and> Incomplete k \<and> h)"
  shows "extractKeys_loop g f b v =
           Inl (if b then OtherError ''Gosto: empty string id on put''
                else OtherError (''Gosto: cannot find a key for struct - '' @ f (v ! i)))"
proof -
  have v: "v = take i v @ v ! i # drop (Suc i) v"
    using i by (rule id_take_nth_drop)
  have "\<forall>x \<in> set (take i v). \<exists>k h. g x = Inr (k, h) \<and> \<not> (\<not> b \<and> Incomplete k) \<and>
      \<not> (b \<and> Incomplete k \<and> h)"
  proof
    fix x assume "x \<in> set (take i v)"
    then obtain j where "j < i" "x = v ! j"
      using i by (auto simp: in_set_conv_nth)
    with prev show "\<exists>k h. g x = Inr (k, h) \<and> \<not> (\<not> b \<and> Incomplete k) \<and>
        \<not> (b \<and> Incomplete k \<and> h)"
      by simp
  qed
  from extractKeys_loop_stops_append [where g = g and e = "v ! i" and f = f and post = "drop (Suc i) v", OF this at fails]
  show ?thesis using v by simp
qed

lemma extractKeys_loop_passes:
  assumes "\<forall>e \<in> set v. \<exists>k h. g e = Inr (k, h) \<and> \<not> (\<not> b \<and> Incomplete k) \<and> \<not> (b \<and> Incomplete k \<and> h)"
  shows "\<exists>keys. extractKeys_loop g f b v = Inr keys \<and> length keys = length v \<and>
           (\<forall>i<length v. \<exists>h. g (v ! i) = Inr (keys ! i, h))"
  using assms
proof (induction v)
  case Nil
  then show ?case by simp
next
  case (Cons e v)
  then obtain keys where keys: "extractKeys_loop g f b v = Inr keys" "length keys = length v"
    "\<forall>i<length v. \<exists>h. g (v ! i) = Inr (keys ! i, h)"
    by auto
  from Cons.prems obtain k h where e: "g e = Inr (k, h)"
    "\<not> (\<not> b \<and> Incomplete k)" "\<not> (b \<and> Incomplete k \<and> h)"
    by auto
  have "extractKeys_loop g f b (e # v) = Inr (k # keys)"
    using e keys(1) by auto
  moreover have "\<forall>i<length (e # v). \<exists>h. g ((e # v) ! i) = Inr ((k # keys) ! i, h)"
    using e(1) keys(3) by (auto simp: nth_Cons split: nat.split)
  ultimately show ?case using keys(2) by auto
qed

lemma realError_all_nil: "realError msg (replicate n None) = None"
  by (cases n) (simp_all add: realError_def realError_loop_iff)

lemma GetMulti_run_outside:
  "GetMulti_run ignore get keys =
     Inr \<lparr>multiErr = replicate (length keys) None, anyErr = (get 0 [] [] \<noteq> None),
          calls = [([], [])]\<rparr>"
proof -
  have g: "(int (length ([]::key list)) - 1) sdiv getMultiLimit + 1 = 1"
    by (simp add: getMultiLimit_def signed_divide_int_def)
  have w: "GetMulti_worker ignore get [] [] [] 0 st =
      Inr (st\<lparr>calls := calls st @ [([], [])], anyErr := (anyErr st \<or> get 0 [] [] \<noteq> None)\<rparr>)"
    for st :: "(key list \<times> 'a list) outcomes"
    by (cases "get 0 [] []")
      (auto simp: GetMulti_worker_def getMultiLimit_def go_slice_def slice_def broadcast_def
        Let_def split: error.split)
  show ?thesis
    unfolding GetMulti_run_def Let_def g by (simp add: w)
qed

lemma GetMulti_outside_transaction:
  assumes "extractKeys g f dst False = Inr keys"
  shows "GetMulti msg g f ignore False getTx get dst = Inr (None, [([], [])])"
  using assms by (simp add: GetMulti_def GetMulti_run_outside realError_all_nil)

section \<open>Empty plans and key failures\<close>

lemma PutMulti_run_empty:
  "PutMulti_run put [] v =
     \<lparr>multiErr = [], anyErr = (put 0 [] [] \<noteq> None), calls = [([], [])]\<rparr>"
proof -
  have g: "(int (length ([]::key list)) - 1) sdiv putMultiLimit + 1 = 1"
    by (simp add: putMultiLimit_def signed_divide_int_def)
  show ?thesis
    unfolding PutMulti_run_def Let_def g
    by (cases "put 0 [] []")
      (auto simp: PutMulti_worker_def putMultiLimit_def slice_def record_failure_def
        broadcast_def copy_into_def Let_def split: error.split)
qed

text \<open>
  Claim C2. For a batch of \<open>n \<ge> 1\<close> elements the chunk plan is the partition the
  claim describes (lemmas \<open>plan_covers\<close>, \<open>length_plan\<close>, \<open>chunk_bounds\<close> and
  \<open>plan_slices\<close>). For the empty batch it is not: Go's division truncates towards
  zero, so \<open>(0 - 1) / 500 + 1\<close> is 1, the plan of \<open>PutMulti\<close> has the one chunk
  \<open>[0, 0)\<close>, and \<open>PutMulti\<close> makes one service call, with no key and no entity.
  \<open>DeleteMulti\<close> returns before the plan on an empty batch.
\<close>

theorem PutMulti_empty_batch:
  "plan putMultiLimit 0 = [(0, 0)] \<and>
   PutMulti msg getStructKey fmtv put (Slice []) = ([], None, [([], [])])"
  by (simp add: plan_empty PutMulti_def extractKeys_def PutMulti_run_empty realError_def Let_def)

text \<open>
  Claim C3. A batch of 1200 entities with complete keys, read outside a transaction:
  the number of goroutines and the chunk bounds are computed from \<open>dskeys\<close>, which is
  empty, so \<open>GetMulti\<close> makes one service call, with no key, and returns nil; the claim
  has two calls covering the 1200 keys.
\<close>

theorem GetMulti_1200_entities:
  "length (map WithID [1..1200]) = 1200 \<and>
   GetMulti msg example_getStructKey fmtv IgnoreFieldMismatch False getTx get
     (Slice (map WithID [1..1200])) = Inr (None, [([], [])])"
proof -
  have "\<forall>e \<in> set (map WithID [1..1200]).
      \<exists>k h. example_getStructKey e = Inr (k, h) \<and> \<not> (\<not> False \<and> Incomplete k) \<and>
        \<not> (False \<and> Incomplete k \<and> h)"
    by (auto simp: Incomplete_def)
  from extractKeys_loop_passes [OF this, of fmtv]
  obtain keys where "extractKeys example_getStructKey fmtv (Slice (map WithID [1..1200])) False
      = Inr keys"
    by (auto simp: extractKeys_def)
  then have "GetMulti msg example_getStructKey fmtv IgnoreFieldMismatch False getTx get
     (Slice (map WithID [1..1200])) = Inr (None, [([], [])])"
    by (rule GetMulti_outside_transaction)
  then show ?thesis by simp
qed

lemma GetMulti_first_incomplete:
  assumes "i < length v"
    and "\<forall>j<i. \<exists>k h. getStructKey (v ! j) = Inr (k, h) \<and> \<not> Incomplete k"
    and "getStructKey (v ! i) = Inr (k, h)" and "Incomplete k"
  shows "GetMulti msg getStructKey fmtv IgnoreFieldMismatch inTransaction getTx get (Slice v) =
           Inr (Some (OtherError (''Gosto: cannot find a key for struct - '' @ fmtv (v ! i))), [])"
proof -
  have "extractKeys_loop getStructKey fmtv False v =
      Inl (if False then OtherError ''Gosto: empty string id on put''
           else OtherError (''Gosto: cannot find a key for struct - '' @ fmtv (v ! i)))"
    using assms
    by (intro extractKeys_loop_stops [where g = getStructKey and k = k and h = h]) simp_all
  then show ?thesis by (simp add: GetMulti_def extractKeys_def)
qed

text \<open>
  Claim C5. In a read batch, when the key derived for an element is incomplete (the
  elements before it having resolved to a key), \<open>GetMulti\<close> fails with the error
  \<open>Gosto: cannot find a key for struct\<close> that names an element whose key is incomplete
  (the first one), and it has made no service call.
\<close>

theorem GetMulti_incomplete_key:
  assumes i: "i < length v"
    and at: "getStructKey (v ! i) = Inr (k, h)" "Incomplete k"
    and prev: "\<forall>j<i. \<exists>k h. getStructKey (v ! j) = Inr (k, h)"
  shows "\<exists>i' \<le> i. (\<exists>k' h'. getStructKey (v ! i') = Inr (k', h') \<and> Incomplete k') \<and>
           GetMulti msg getStructKey fmtv IgnoreFieldMismatch inTransaction getTx get (Slice v) =
             Inr (Some (OtherError
                    (''Gosto: cannot find a key for struct - '' @ fmtv (v ! i'))), [])"
proof -
  define P where "P j \<longleftrightarrow> (\<exists>k' h'. getStructKey (v ! j) = Inr (k', h') \<and> Incomplete k')" for j
  define i' where "i' = (LEAST j. P j)"
  have Pi: "P i" using at by (auto simp: P_def)
  then have Pi': "P i'" unfolding i'_def by (rule LeastI)
  have le: "i' \<le> i" unfolding i'_def using Pi by (rule Least_le)
  have before: "\<not> P j" if "j < i'" for j
    using that not_less_Least unfolding i'_def by blast
  from Pi' obtain k' h' where k': "getStructKey (v ! i') = Inr (k', h')" "Incomplete k'"
    by (auto simp: P_def)
  have "\<forall>j<i'. \<exists>k h. getStructKey (v ! j) = Inr (k, h) \<and> \<not> Incomplete k"
  proof (intro allI impI)
    fix j assume j: "j < i'"
    with le have "j < i" by simp
    with prev obtain kj hj where kj: "getStructKey (v ! j) = Inr (kj, hj)" by blast
    with before [OF j] have "\<not> Incomplete kj" by (auto simp: P_def)
    with kj show "\<exists>k h. getStructKey (v ! j) = Inr (k, h) \<and> \<not> Incomplete k" by blast
  qed
  moreover have "i' < length v" using le i by simp
  ultimately have "GetMulti msg getStructKey fmtv IgnoreFieldMismatch inTransaction getTx get
      (Slice v) =
      Inr (Some (OtherError (''Gosto: cannot find a key for struct - '' @ fmtv (v ! i'))), [])"
    using k' by (intro GetMulti_first_incomplete) simp_all
  with le k' show ?thesis by blast
qed

theorem GetMulti_incomplete_key_witness:
  "GetMulti example_msg example_getStructKey example_fmtv True False
     (\<lambda>ks es. None) (\<lambda>i ks es. None) (Slice [WithID 7, WithID 0, WithName ''a'']) =
     Inr (Some (OtherError ''Gosto: cannot find a key for struct - &{0}''), [])"
proof -
  have 1: "(1::nat) < length [WithID 7, WithID 0, WithName ''a'']" by simp
  have 2: "example_getStructKey ([WithID 7, WithID 0, WithName ''a''] ! 1)
      = Inr (Key ''Entity'' 0 [] None [], False)"
    by simp
  have 3: "Incomplete (Key ''Entity'' 0 [] None [])" by (simp add: Incomplete_def)
  have 4: "\<forall>j<1. \<exists>k h. example_getStructKey ([WithID 7, WithID 0, WithName ''a''] ! j)
      = Inr (k, h)"
    by auto
  from GetMulti_incomplete_key [OF 1 2 3 4, of example_msg example_fmtv True False
    "\<lambda>ks es. None" "\<lambda>i ks es. None"]
  obtain i' where i': "i' \<le> 1"
    "\<exists>k' h'. example_getStructKey ([WithID 7, WithID 0, WithName ''a''] ! i') = Inr (k', h') \<and>
      Incomplete k'"
    "GetMulti example_msg example_getStructKey example_fmtv True False
      (\<lambda>ks es. None) (\<lambda>i ks es. None) (Slice [WithID 7, WithID 0, WithName ''a'']) =
      Inr (Some (OtherError (''Gosto: cannot find a key for struct - '' @
        example_fmtv ([WithID 7, WithID 0, WithName ''a''] ! i'))), [])"
    by blast
  from i'(1) consider "i' = 0" | "i' = 1" by linarith
  then show ?thesis
  proof cases
    case 1
    with i'(2) show ?thesis by (simp add: Incomplete_def)
  next
    case 2
    with i'(3) show ?thesis by simp
  qed
qed

section \<open>Put with incomplete keys\<close>

lemma PutMulti_extracted:
  assumes "extractKeys getStructKey fmtv src True = Inr keys"
  shows "\<exists>err. PutMulti msg getStructKey fmtv put src =
           (keys, err, calls (PutMulti_run put keys (elems src)))"
  using assms by (simp add: PutMulti_def Let_def)

lemma snd_Put:
  "snd (Put msg getStructKey fmtv put e) =
     snd (snd (PutMulti msg getStructKey fmtv put (Slice [e])))"
  by (simp add: Put_def split: prod.split option.split error.split)

lemma PutMulti_first_empty_string_id:
  assumes "i < length v"
    and "\<forall>j<i. \<exists>k h. getStructKey (v ! j) = Inr (k, h) \<and> \<not> (Incomplete k \<and> h)"
    and "getStructKey (v ! i) = Inr (k, True)" and "Incomplete k"
  shows "PutMulti msg getStructKey fmtv put (Slice v) =
           ([], Some (OtherError ''Gosto: empty string id on put''), [])"
proof -
  have "extractKeys_loop getStructKey fmtv True v =
      Inl (if True then OtherError ''Gosto: empty string id on put''
           else OtherError (''Gosto: cannot find a key for struct - '' @ fmtv (v ! i)))"
    using assms
    by (intro extractKeys_loop_stops [where g = getStructKey and k = k and h = True]) simp_all
  then show ?thesis by (simp add: PutMulti_def extractKeys_def)
qed

lemma PutMulti_accepts:
  assumes all: "\<forall>j<length v. \<exists>k h. getStructKey (v ! j) = Inr (k, h) \<and> \<not> (Incomplete k \<and> h)"
    and i: "i < length v" and at: "getStructKey (v ! i) = Inr (k, h)"
  shows "\<exists>keys err cs. PutMulti msg getStructKey fmtv put (Slice v) = (keys, err, cs) \<and>
           length keys = length v \<and> keys ! i = k \<and>
           concat (map fst cs) = keys \<and> concat (map snd cs) = v"
proof -
  have "\<forall>e \<in> set v. \<exists>k h. getStructKey e = Inr (k, h) \<and> \<not> (\<not> True \<and> Incomplete k) \<and>
      \<not> (True \<and> Incomplete k \<and> h)"
    using all by (auto simp: in_set_conv_nth)
  from extractKeys_loop_passes [OF this, of fmtv]
  obtain keys where keys: "extractKeys_loop getStructKey fmtv True v = Inr keys"
    "length keys = length v" "\<forall>i<length v. \<exists>h. getStructKey (v ! i) = Inr (keys ! i, h)"
    by blast
  from keys(3) i at have ki: "keys ! i = k" by fastforce
  have n: "1 \<le> int (length keys)" "1 \<le> int (length v)" using i keys(2) by simp_all
  have L: "0 < putMultiLimit" by (simp add: putMultiLimit_def)
  let ?cs = "calls (PutMulti_run put keys v)"
  have "concat (map fst ?cs) =
      concat (map (\<lambda>(lo, hi). slice keys lo hi) (plan putMultiLimit (int (length keys))))"
    by (simp add: calls_PutMulti_run comp_def case_prod_unfold)
  then have c1: "concat (map fst ?cs) = keys"
    using plan_slices [OF L n(1)] by simp
  have "concat (map snd ?cs) =
      concat (map (\<lambda>(lo, hi). slice v lo hi) (plan putMultiLimit (int (length v))))"
    by (simp add: calls_PutMulti_run comp_def case_prod_unfold keys(2))
  then have c2: "concat (map snd ?cs) = v"
    using plan_slices [OF L n(2)] by simp
  from keys(1) have "extractKeys getStructKey fmtv (Slice v) True = Inr keys"
    by (simp add: extractKeys_def)
  from PutMulti_extracted [OF this, of msg put]
  obtain err where "PutMulti msg getStructKey fmtv put (Slice v) = (keys, err, ?cs)"
    by auto
  with keys(2) ki c1 c2 show ?thesis by blast
qed

text \<open>
  Claim C4. On \<open>Put\<close> and \<open>PutMulti\<close>, take an element whose derived key is incomplete,
  the elements before it having passed. If it has a string id (which is then empty), the
  call fails with \<open>Gosto: empty string id on put\<close> and no service call is made. If it
  has no string id it is accepted: \<open>Put\<close> makes its service call with the incomplete
  key, and \<open>PutMulti\<close>, when the other elements pass too, returns the keys with the
  incomplete key at the element's index and has sent all keys and entities to the
  service.
\<close>

theorem Put_incomplete_key:
  assumes i: "i < length v"
    and prev: "\<forall>j<i. \<exists>k h. getStructKey (v ! j) = Inr (k, h) \<and> \<not> (Incomplete k \<and> h)"
    and at: "getStructKey (v ! i) = Inr (k, h)" "Incomplete k"
  shows "(h \<longrightarrow>
            PutMulti msg getStructKey fmtv put (Slice v) =
              ([], Some (OtherError ''Gosto: empty string id on put''), []) \<and>
            Put msg getStructKey fmtv put (v ! i) =
              (Inr (None, Some (OtherError ''Gosto: empty string id on put'')), [])) \<and>
         (\<not> h \<longrightarrow>
            snd (Put msg getStructKey fmtv put (v ! i)) = [([k], [v ! i])] \<and>
            ((\<forall>j<length v. \<exists>k h. getStructKey (v ! j) = Inr (k, h) \<and> \<not> (Incomplete k \<and> h)) \<longrightarrow>
             (\<exists>keys err cs. PutMulti msg getStructKey fmtv put (Slice v) = (keys, err, cs) \<and>
                length keys = length v \<and> keys ! i = k \<and>
                concat (map fst cs) = keys \<and> concat (map snd cs) = v)))"
proof (intro conjI impI)
  assume h
  with at have at': "getStructKey (v ! i) = Inr (k, True)" by simp
  show "PutMulti msg getStructKey fmtv put (Slice v) =
      ([], Some (OtherError ''Gosto: empty string id on put''), [])"
    using i prev at' at(2) by (rule PutMulti_first_empty_string_id)
  have "PutMulti msg getStructKey fmtv put (Slice [v ! i]) =
      ([], Some (OtherError ''Gosto: empty string id on put''), [])"
    using at' at(2)
    by (intro PutMulti_first_empty_string_id [where i = 0 and k = k]) simp_all
  then show "Put msg getStructKey fmtv put (v ! i) =
      (Inr (None, Some (OtherError ''Gosto: empty string id on put'')), [])"
    by (simp add: Put_def)
next
  assume nh: "\<not> h"
  have "\<exists>keys err cs. PutMulti msg getStructKey fmtv put (Slice [v ! i]) = (keys, err, cs) \<and>
      length keys = length [v ! i] \<and> keys ! 0 = k \<and>
      concat (map fst cs) = keys \<and> concat (map snd cs) = [v ! i]"
    using at nh by (intro PutMulti_accepts [where h = h]) auto
  then obtain keys err cs where
    p: "PutMulti msg getStructKey fmtv put (Slice [v ! i]) = (keys, err, cs)"
    and keys: "length keys = 1" "keys ! 0 = k" by auto
  from keys have keys': "keys = [k]" by (cases keys) simp_all
  have "extractKeys getStructKey fmtv (Slice [v ! i]) True = Inr [k]"
    using at nh by (simp add: extractKeys_def)
  from PutMulti_extracted [OF this, of msg put]
  have "snd (snd (PutMulti msg getStructKey fmtv put (Slice [v ! i]))) =
      calls (PutMulti_run put [k] [v ! i])"
    by auto
  also have "\<dots> = [([k], [v ! i])]"
    by (simp add: calls_PutMulti_run plan_def goroutines_def chunk_def putMultiLimit_def
        slice_def)
  finally show "snd (Put msg getStructKey fmtv put (v ! i)) = [([k], [v ! i])]"
    by (simp add: snd_Put)
next
  assume "\<not> h"
    and "\<forall>j<length v. \<exists>k h. getStructKey (v ! j) = Inr (k, h) \<and> \<not> (Incomplete k \<and> h)"
  then show "\<exists>keys err cs. PutMulti msg getStructKey fmtv put (Slice v) = (keys, err, cs) \<and>
      length keys = length v \<and> keys ! i = k \<and>
      concat (map fst cs) = keys \<and> concat (map snd cs) = v"
    using i at(1) by (intro PutMulti_accepts [where h = h]) simp_all
qed

theorem Put_incomplete_key_witness:
  "PutMulti example_msg example_getStructKey example_fmtv example_put_ok
     (Slice [WithID 5, WithName '''']) =
     ([], Some (OtherError ''Gosto: empty string id on put''), []) \<and>
   Put example_msg example_getStructKey example_fmtv example_put_ok (WithName '''') =
     (Inr (None, Some (OtherError ''Gosto: empty string id on put'')), []) \<and>
   snd (Put example_msg example_getStructKey example_fmtv example_put_ok (WithID 0)) =
     [([Key ''Entity'' 0 [] None []], [WithID 0])] \<and>
   fst (PutMulti example_msg example_getStructKey example_fmtv example_put_ok
     (Slice [WithID 5, WithID 0])) ! 1 = Key ''Entity'' 0 [] None []"
proof -
  have a: "(1::nat) < length [WithID 5, WithName '''']"
    "\<forall>j<1. \<exists>k h. example_getStructKey ([WithID 5, WithName ''''] ! j) = Inr (k, h) \<and>
       \<not> (Incomplete k \<and> h)"
    "example_getStructKey ([WithID 5, WithName ''''] ! 1) = Inr (Key ''Entity'' 0 [] None [], True)"
    "Incomplete (Key ''Entity'' 0 [] None [])"
    by (auto simp: Incomplete_def)
  have b: "(1::nat) < length [WithID 5, WithID 0]"
    "\<forall>j<1. \<exists>k h. example_getStructKey ([WithID 5, WithID 0] ! j) = Inr (k, h) \<and>
       \<not> (Incomplete k \<and> h)"
    "example_getStructKey ([WithID 5, WithID 0] ! 1) = Inr (Key ''Entity'' 0 [] None [], False)"
    by (auto simp: Incomplete_def)
  have c: "\<forall>j<length [WithID 5, WithID 0].
      \<exists>k h. example_getStructKey ([WithID 5, WithID 0] ! j) = Inr (k, h) \<and> \<not> (Incomplete k \<and> h)"
    by (auto simp: less_Suc_eq)
  note A = Put_incomplete_key [OF a, of example_msg example_fmtv example_put_ok]
  note B = Put_incomplete_key [OF b a(4), of example_msg example_fmtv example_put_ok]
  from B c have "\<exists>keys err cs.
      PutMulti example_msg example_getStructKey example_fmtv example_put_ok
        (Slice [WithID 5, WithID 0]) = (keys, err, cs) \<and> keys ! 1 = Key ''Entity'' 0 [] None []"
    by blast
  then have "fst (PutMulti example_msg example_getStructKey example_fmtv example_put_ok
     (Slice [WithID 5, WithID 0])) ! 1 = Key ''Entity'' 0 [] None []"
    by auto
  with A B show ?thesis by simp
qed

section \<open>Iterator.Next\<close>

text \<open>
  Claim C9. When the datastore iterator succeeds, or fails with a field mismatch that is
  tolerated, and the destination is not nil, an error of \<open>setStructKey\<close> is dropped:
  \<open>Next\<close> returns the key and a nil error.
\<close>

theorem Next_discards_stamping_error:
  assumes "inner dst = (k, err, Some d)"
    and "err = None \<or> (IgnoreFieldMismatch \<and> errFieldMismatch err)"
    and "setStructKey d k = (d', Some e)"
  shows "Next IgnoreFieldMismatch inner setStructKey dst = (k, None, Some d')"
  using assms by (auto simp: Next_def)

theorem Next_discards_stamping_error_witness:
  "Next True example_inner example_setStructKey_fails (Some (WithID 0)) =
     (Some (Key ''Entity'' 7 [] None []), None, Some (WithID 0))"
  by (rule Next_discards_stamping_error [where err = None and e = "OtherError ''Gosto: set key failed''"])
    (simp_all add: example_inner_def example_setStructKey_fails_def)

section \<open>Reading an absent entity\<close>

text \<open>
  Claim C8. \<open>NewGosto\<close> leaves \<open>inTransaction\<close> false and nothing sets it, so every
  \<open>Get\<close> and \<open>GetMulti\<close> runs outside a transaction. Take an entity with a complete
  key that the store does not hold: asked for the key, the store reports it as absent.
  \<open>Get\<close> and a one-element \<open>GetMulti\<close> make their one service call with no key and
  return nil, whatever the service answers, so there is no not-found outcome and
  \<open>NotFound\<close> at index 0 is false; the claim, and the doc comment of \<open>Get\<close>, have the
  not-found error returned.
\<close>

theorem Get_absent_entity_returns_nil:
  "example_service 0 [Key ''Entity'' 1 [] None []] [WithID 1]
     = Some (MultiError [Some ErrNoSuchEntity]) \<and>
   Get msg example_getStructKey fmtv IgnoreFieldMismatch False getTx get (Ptr (WithID 1))
     = Inr (None, [([], [])]) \<and>
   GetMulti msg example_getStructKey fmtv IgnoreFieldMismatch False getTx get (Slice [WithID 1])
     = Inr (None, [([], [])]) \<and>
   NotFound None 0 = Inr False"
proof -
  have "extractKeys example_getStructKey fmtv (Slice [WithID 1]) False =
      Inr [Key ''Entity'' 1 [] None []]"
    by (simp add: extractKeys_def Incomplete_def)
  then have "GetMulti msg example_getStructKey fmtv IgnoreFieldMismatch False getTx get
      (Slice [WithID 1]) = Inr (None, [([], [])])"
    by (rule GetMulti_outside_transaction)
  then show ?thesis
    by (simp add: Get_def NotFound_def example_service_def example_empty_store_def)
qed

section \<open>GetMulti inside a transaction\<close>

text \<open>
  The branch that \<open>GetMulti\<close> takes when \<open>inTransaction\<close> is set. Nothing in the package
  sets the field, so these lemmas describe the branch as it is written, and no claim
  rests on them.
\<close>

lemma GetMulti_tx_loop_result:
  assumes "\<forall>i \<in> set js. i < length merr"
  shows "\<exists>st'. GetMulti_tx_loop ignore merr js st = Inr st' \<and>
           length (multiErr st') = length (multiErr st) \<and> calls st' = calls st \<and>
           (\<forall>j<length (multiErr st). multiErr st' ! j =
              (if j \<in> set js \<and> merr ! j \<noteq> None \<and> (\<not> ignore \<or> \<not> errFieldMismatch (merr ! j))
               then merr ! j else multiErr st ! j))"
  using assms
proof (induction js arbitrary: st)
  case Nil
  then show ?case by simp
next
  case (Cons i js)
  let ?keep = "merr ! i \<noteq> None \<and> (\<not> ignore \<or> \<not> errFieldMismatch (merr ! i))"
  let ?st1 = "if ?keep then st\<lparr>anyErr := True, multiErr := (multiErr st)[i := merr ! i]\<rparr> else st"
  have i: "i < length merr" using Cons.prems by simp
  have step: "GetMulti_tx_loop ignore merr (i # js) st = GetMulti_tx_loop ignore merr js ?st1"
    using i by simp
  from Cons.prems have "\<forall>i \<in> set js. i < length merr" by simp
  from Cons.IH [OF this, of ?st1]
  obtain st' where st': "GetMulti_tx_loop ignore merr js ?st1 = Inr st'"
    "length (multiErr st') = length (multiErr ?st1)" "calls st' = calls ?st1"
    "\<forall>j<length (multiErr ?st1). multiErr st' ! j =
       (if j \<in> set js \<and> merr ! j \<noteq> None \<and> (\<not> ignore \<or> \<not> errFieldMismatch (merr ! j))
        then merr ! j else multiErr ?st1 ! j)"
    by blast
  have len: "length (multiErr ?st1) = length (multiErr st)" by simp
  have "\<forall>j<length (multiErr st). multiErr st' ! j =
      (if j \<in> set (i # js) \<and> merr ! j \<noteq> None \<and> (\<not> ignore \<or> \<not> errFieldMismatch (merr ! j))
       then merr ! j else multiErr st ! j)"
  proof (intro allI impI)
    fix j assume j: "j < length (multiErr st)"
    with st'(4) len have "multiErr st' ! j =
       (if j \<in> set js \<and> merr ! j \<noteq> None \<and> (\<not> ignore \<or> \<not> errFieldMismatch (merr ! j))
        then merr ! j else multiErr ?st1 ! j)"
      by simp
    moreover have "multiErr ?st1 ! j = (if j = i \<and> ?keep then merr ! i else multiErr st ! j)"
      using j by (auto simp: nth_list_update)
    ultimately show "multiErr st' ! j =
      (if j \<in> set (i # js) \<and> merr ! j \<noteq> None \<and> (\<not> ignore \<or> \<not> errFieldMismatch (merr ! j))
       then merr ! j else multiErr st ! j)"
      by auto
  qed
  moreover have "calls st' = calls st" using st'(3) by simp
  ultimately show ?case using step st'(1,2) len by simp
qed

lemma GetMulti_tx_loop_length:
  "GetMulti_tx_loop ignore merr js st = Inr st' \<Longrightarrow>
     length (multiErr st') = length (multiErr st)"
proof (induction js arbitrary: st)
  case Nil
  then show ?case by simp
next
  case (Cons i js)
  show ?case
  proof (cases "merr ! i \<noteq> None \<and> (\<not> ignore \<or> \<not> errFieldMismatch (merr ! i))")
    case True
    with Cons.prems have "GetMulti_tx_loop ignore merr js
        (st\<lparr>anyErr := True, multiErr := (multiErr st)[i := merr ! i]\<rparr>) = Inr st'"
      by (simp split: if_splits)
    from Cons.IH [OF this] show ?thesis by simp
  next
    case False
    with Cons.prems have "GetMulti_tx_loop ignore merr js st = Inr st'"
      by (simp split: if_splits)
    from Cons.IH [OF this] show ?thesis .
  qed
qed

lemma length_GetMulti_tx_run:
  assumes "GetMulti_tx_run ignore getTx keys v = Inr st"
  shows "length (multiErr st) = length keys"
proof (cases "getTx keys v")
  case None
  with assms show ?thesis by (auto simp: GetMulti_tx_run_def)
next
  case (Some e)
  show ?thesis
  proof (cases "\<exists>merr. e = MultiError merr")
    case True
    then obtain merr where "e = MultiError merr" by blast
    with assms Some show ?thesis
      by (auto simp: GetMulti_tx_run_def dest: GetMulti_tx_loop_length)
  next
    case False
    with assms Some show ?thesis
      by (cases e) (auto simp: GetMulti_tx_run_def length_broadcast)
  qed
qed

lemma length_GetMulti_run:
  assumes "GetMulti_run ignore get keys = Inr st"
  shows "length (multiErr st) = length keys"
  using assms by (auto simp: GetMulti_run_outside)

lemma GetMulti_tx_run_plain:
  assumes "getTx keys v = Some e" "\<forall>merr. e \<noteq> MultiError merr" "j < length keys"
  shows "\<exists>st. GetMulti_tx_run ignore getTx keys v = Inr st \<and> multiErr st ! j = Some e"
  using assms by (cases e) (auto simp: GetMulti_tx_run_def nth_broadcast)

lemma GetMulti_tx_run_itemized:
  assumes "getTx keys v = Some (MultiError merr)" "length keys \<le> length merr" "j < length keys"
  shows "\<exists>st. GetMulti_tx_run ignore getTx keys v = Inr st \<and> calls st = [(keys, v)] \<and>
           multiErr st ! j =
             (if merr ! j \<noteq> None \<and> (\<not> ignore \<or> \<not> errFieldMismatch (merr ! j))
              then merr ! j else None)"
proof -
  let ?st0 = "\<lparr>multiErr = replicate (length keys) None, anyErr = False, calls = [(keys, v)]\<rparr>"
  have "\<forall>i \<in> set [0..<length keys]. i < length merr" using assms(2) by simp
  from GetMulti_tx_loop_result [OF this, of ignore ?st0]
  obtain st' where st': "GetMulti_tx_loop ignore merr [0..<length keys] ?st0 = Inr st'"
    "calls st' = calls ?st0"
    "\<forall>j<length (multiErr ?st0). multiErr st' ! j =
       (if j \<in> set [0..<length keys] \<and> merr ! j \<noteq> None \<and>
           (\<not> ignore \<or> \<not> errFieldMismatch (merr ! j))
        then merr ! j else multiErr ?st0 ! j)"
    by blast
  from st'(3) assms(3) have "multiErr st' ! j =
      (if merr ! j \<noteq> None \<and> (\<not> ignore \<or> \<not> errFieldMismatch (merr ! j))
       then merr ! j else None)"
    by simp
  moreover have "GetMulti_tx_run ignore getTx keys v = Inr st'"
    using assms(1) st'(1) by (simp add: GetMulti_tx_run_def)
  ultimately show ?thesis using st'(2) by simp
qed

section \<open>The loop of the goroutines of GetMulti\<close>

lemma range_loop_returns:
  assumes "\<forall>(i, idx) \<in> set ps. i < length merr \<and> 0 \<le> idx \<and> idx < int (length m)"
  shows "\<exists>m'. GetMulti_range_loop ignore merr ps m = Inr m' \<and> length m' = length m"
  using assms
proof (induction ps arbitrary: m)
  case Nil
  then show ?case by simp
next
  case (Cons p ps)
  obtain i idx where p: "p = (i, idx)" by (cases p)
  with Cons.prems have b: "i < length merr" "0 \<le> idx" "idx < int (length m)"
    and rest: "\<forall>(i, idx) \<in> set ps. i < length merr \<and> 0 \<le> idx \<and> idx < int (length m)"
    by auto
  show ?case
  proof (cases "merr ! i = None \<or> (ignore \<and> errFieldMismatch (merr ! i))")
    case True
    then have "GetMulti_range_loop ignore merr (p # ps) m = GetMulti_range_loop ignore merr ps m"
      using b p by auto
    with Cons.IH [OF rest] show ?thesis by simp
  next
    case False
    then have "GetMulti_range_loop ignore merr (p # ps) m =
        GetMulti_range_loop ignore merr ps (m[nat idx := merr ! i])"
      using b p by auto
    moreover have "\<forall>(i', idx') \<in> set ps.
        i' < length merr \<and> 0 \<le> idx' \<and> idx' < int (length (m[nat idx := merr ! i]))"
      using rest by simp
    from Cons.IH [OF this] have "\<exists>m'. GetMulti_range_loop ignore merr ps (m[nat idx := merr ! i])
        = Inr m' \<and> length m' = length m"
      by simp
    ultimately show ?thesis by simp
  qed
qed

lemma range_loop_step:
  assumes "GetMulti_range_loop ignore merr ((i, idx) # ps) m = Inr m'"
  shows "(merr ! i = None \<or> (ignore \<and> errFieldMismatch (merr ! i))) \<and>
           GetMulti_range_loop ignore merr ps m = Inr m' \<or>
         \<not> (merr ! i = None \<or> (ignore \<and> errFieldMismatch (merr ! i))) \<and>
           0 \<le> idx \<and> idx < int (length m) \<and>
           GetMulti_range_loop ignore merr ps (m[nat idx := merr ! i]) = Inr m'"
  using assms by (auto split: if_splits)

lemma range_loop_untouched:
  assumes "GetMulti_range_loop ignore merr ps m = Inr m'" and "j < length m"
    and "\<forall>(i, idx) \<in> set ps. idx = int j \<longrightarrow>
           merr ! i = None \<or> (ignore \<and> errFieldMismatch (merr ! i))"
  shows "m' ! j = m ! j \<and> length m' = length m"
  using assms
proof (induction ps arbitrary: m)
  case Nil
  then show ?case by simp
next
  case (Cons p ps)
  obtain i idx where p: "p = (i, idx)" by (cases p)
  from Cons.prems(3) have rest: "\<forall>(i, idx) \<in> set ps. idx = int j \<longrightarrow>
      merr ! i = None \<or> (ignore \<and> errFieldMismatch (merr ! i))"
    by simp
  from range_loop_step [OF Cons.prems(1) [unfolded p]]
  consider (skip) "GetMulti_range_loop ignore merr ps m = Inr m'"
    | (store) "\<not> (merr ! i = None \<or> (ignore \<and> errFieldMismatch (merr ! i)))"
        "0 \<le> idx" "idx < int (length m)"
        "GetMulti_range_loop ignore merr ps (m[nat idx := merr ! i]) = Inr m'"
    by blast
  then show ?case
  proof cases
    case skip
    from Cons.IH [OF this Cons.prems(2) rest] show ?thesis .
  next
    case store
    from Cons.prems(3) p store(1) have ne: "idx \<noteq> int j" by auto
    have "j < length (m[nat idx := merr ! i])" using Cons.prems(2) by simp
    from Cons.IH [OF store(4) this rest]
    have "m' ! j = (m[nat idx := merr ! i]) ! j" "length m' = length m" by simp_all
    moreover have "nat idx \<noteq> j" using ne store(2) by auto
    ultimately show ?thesis by simp
  qed
qed

lemma range_loop_written:
  assumes "GetMulti_range_loop ignore merr ps m = Inr m'" and "distinct (map snd ps)"
    and "(i, idx) \<in> set ps"
    and "\<not> (merr ! i = None \<or> (ignore \<and> errFieldMismatch (merr ! i)))"
  shows "m' ! nat idx = merr ! i"
  using assms(1-3)
proof (induction ps arbitrary: m)
  case Nil
  then show ?case by simp
next
  case (Cons p ps)
  obtain i0 idx0 where p: "p = (i0, idx0)" by (cases p)
  from Cons.prems(2) p have d: "distinct (map snd ps)" "idx0 \<notin> snd ` set ps" by simp_all
  show ?case
  proof (cases "(i, idx) = (i0, idx0)")
    case True
    then have eq: "i0 = i" "idx0 = idx" by simp_all
    from range_loop_step [OF Cons.prems(1) [unfolded p]] assms(4) eq
    have idx: "0 \<le> idx" "idx < int (length m)"
      and l: "GetMulti_range_loop ignore merr ps (m[nat idx := merr ! i]) = Inr m'"
      by auto
    have j: "nat idx < length (m[nat idx := merr ! i])" using idx by simp
    have "\<forall>(i', idx') \<in> set ps. idx' = int (nat idx) \<longrightarrow>
        merr ! i' = None \<or> (ignore \<and> errFieldMismatch (merr ! i'))"
      using d(2) eq idx by force
    from range_loop_untouched [OF l j this]
    show ?thesis using idx by simp
  next
    case False
    with Cons.prems(3) p have "(i, idx) \<in> set ps" by auto
    with range_loop_step [OF Cons.prems(1) [unfolded p]] d(1) Cons.IH
    show ?thesis by blast
  qed
qed

lemma range_loop_filter:
  assumes len: "length ixs \<le> length merr"
    and inr: "\<forall>idx \<in> set ixs. 0 \<le> idx \<and> idx < int (length m)"
    and d: "distinct ixs" and a: "a < length ixs"
  shows "\<exists>m'. GetMulti_range_loop ignore merr (zip [0..<length ixs] ixs) m = Inr m' \<and>
           length m' = length m \<and>
           m' ! nat (ixs ! a) =
             (if merr ! a = None \<or> (ignore \<and> errFieldMismatch (merr ! a))
              then m ! nat (ixs ! a) else merr ! a)"
proof -
  let ?ps = "zip [0..<length ixs] ixs"
  have "\<forall>(i, idx) \<in> set ?ps. i < length merr \<and> 0 \<le> idx \<and> idx < int (length m)"
    using len inr by (auto simp: set_zip)
  from range_loop_returns [OF this, of ignore]
  obtain m' where m': "GetMulti_range_loop ignore merr ?ps m = Inr m'" "length m' = length m"
    by blast
  have snd: "map snd ?ps = ixs" by simp
  have mem: "(a, ixs ! a) \<in> set ?ps"
    using a by (auto simp: in_set_zip intro!: exI [of _ a])
  have j: "nat (ixs ! a) < length m" using inr a by (metis nat_less_iff nth_mem)
  have nn: "0 \<le> ixs ! a" using inr a by simp
  show ?thesis
  proof (cases "merr ! a = None \<or> (ignore \<and> errFieldMismatch (merr ! a))")
    case True
    have "\<forall>(i, idx) \<in> set ?ps. idx = int (nat (ixs ! a)) \<longrightarrow>
        merr ! i = None \<or> (ignore \<and> errFieldMismatch (merr ! i))"
    proof (clarify)
      fix i idx assume "(i, int (nat (ixs ! a))) \<in> set ?ps"
        and "\<not> (ignore \<and> errFieldMismatch (merr ! i))"
      then have "i < length ixs" "ixs ! i = ixs ! a" using nn by (auto simp: set_zip)
      with d a have "i = a" by (simp add: nth_eq_iff_index_eq)
      with True \<open>\<not> (ignore \<and> errFieldMismatch (merr ! i))\<close> show "merr ! i = None" by blast
    qed
    from range_loop_untouched [OF m'(1) j this] True m' show ?thesis by simp
  next
    case False
    have "m' ! nat (ixs ! a) = merr ! a"
      using range_loop_written [OF m'(1) _ mem False] d snd by simp
    with False m' show ?thesis by auto
  qed
qed

lemma Next_field_mismatch:
  assumes "inner dst = (k, err, dst')" "errFieldMismatch err"
  shows "fst (Next ignore inner ssk dst) = k \<and>
         fst (snd (Next ignore inner ssk dst)) = (if ignore then None else err)"
  using assms by (cases dst') (auto simp: Next_def)

section \<open>GetAll\<close>

lemma GetAll_field_mismatch:
  assumes g: "getAll dst = (keys, err0, w)" and fm: "errFieldMismatch err0"
  shows "GetAll ignore getAll ssk zero dst =
           (if ignore then GetAll ignore (\<lambda>d. (keys, None, w)) ssk zero dst
            else (case GetAll ignore (\<lambda>d. (keys, None, w)) ssk zero dst of
                    Inr (ks, None) \<Rightarrow> Inr (ks, err0)
                  | r \<Rightarrow> r))"
proof -
  from fm have ne: "err0 \<noteq> None" by (cases err0) simp_all
  show ?thesis
  proof (cases dst)
    case DstNil
    then show ?thesis using g fm ne by (simp add: GetAll_def)
  next
    case (DstNotPtr kn)
    then show ?thesis by (simp add: GetAll_def)
  next
    case (DstPtrNotSlice kn)
    then show ?thesis by (simp add: GetAll_def)
  next
    case (DstPtrSlice v0 ptr k)
    show ?thesis
    proof (cases "keys = [] \<or> k \<noteq> Struct")
      case True
      then show ?thesis using g fm ne DstPtrSlice by (auto simp: GetAll_def)
    next
      case False
      then show ?thesis using g fm ne DstPtrSlice
        by (cases "GetAll_stamp ssk (length v0) keys (w @ replicate (length keys) zero)")
          (auto simp: GetAll_def split: sum.splits)
    qed
  qed
qed

section \<open>What the outcome array holds\<close>





text \<open>
  The goroutine of \<open>GetMulti\<close> as it is written, for any \<open>dskeys\<close>, \<open>dsdst\<close> and \<open>dixs\<close>
  (\<open>GetMulti\<close> itself runs it with the three empty): it writes a plain error into every
  slot of its range, panics when the range passes the end of the outcome array, and
  on an itemized error runs the loop over its part of \<open>dixs\<close>.
\<close>

lemma GetMulti_worker_plain:
  assumes lo: "lo = i * getMultiLimit"
    and hi: "hi = (if (i + 1) * getMultiLimit > int (length dskeys) then int (length dskeys)
                   else (i + 1) * getMultiLimit)"
    and ok: "0 \<le> lo" "lo \<le> hi" "hi \<le> int (length dsdst)"
    and fits: "hi \<le> int (length (multiErr st))"
    and e: "get i (slice dskeys lo hi) (slice dsdst lo hi) = Some e" "\<forall>merr. e \<noteq> MultiError merr"
    and j: "lo \<le> int j" "int j < hi"
  shows "\<exists>st'. GetMulti_worker ignore get dskeys dsdst dixs i st = Inr st' \<and>
           length (multiErr st') = length (multiErr st) \<and> multiErr st' ! j = Some e"
proof -
  have hi': "hi \<le> int (length dskeys)" using hi by (simp split: if_splits)
  have s1: "go_slice dskeys lo hi = Inr (slice dskeys lo hi)"
    using ok hi' by (simp add: go_slice_def)
  have s2: "go_slice dsdst lo hi = Inr (slice dsdst lo hi)"
    using ok by (simp add: go_slice_def)
  let ?st = "st\<lparr>calls := calls st @ [(slice dskeys lo hi, slice dsdst lo hi)]\<rparr>"
  have w: "GetMulti_worker ignore get dskeys dsdst dixs i st =
      Inr (?st\<lparr>anyErr := True, multiErr := broadcast (multiErr ?st) lo hi (Some e)\<rparr>)"
    unfolding GetMulti_worker_def Let_def lo [symmetric] hi [symmetric]
    using e fits by (cases e) (simp_all add: s1 s2)
  have "j < length (multiErr st)" using j fits by simp
  then show ?thesis
    unfolding w using ok(1) j by (simp add: length_broadcast nth_broadcast)
qed

lemma GetMulti_worker_plain_panics:
  assumes lo: "lo = i * getMultiLimit"
    and hi: "hi = (if (i + 1) * getMultiLimit > int (length dskeys) then int (length dskeys)
                   else (i + 1) * getMultiLimit)"
    and ok: "0 \<le> lo" "lo < hi" "hi \<le> int (length dsdst)"
    and short: "int (length (multiErr st)) < hi"
    and e: "get i (slice dskeys lo hi) (slice dsdst lo hi) = Some e" "\<forall>merr. e \<noteq> MultiError merr"
  shows "GetMulti_worker ignore get dskeys dsdst dixs i st = Inl IndexOutOfRange"
proof -
  have hi': "hi \<le> int (length dskeys)" using hi by (simp split: if_splits)
  have s1: "go_slice dskeys lo hi = Inr (slice dskeys lo hi)"
    using ok hi' by (simp add: go_slice_def)
  have s2: "go_slice dsdst lo hi = Inr (slice dsdst lo hi)"
    using ok by (simp add: go_slice_def)
  show ?thesis
    unfolding GetMulti_worker_def Let_def lo [symmetric] hi [symmetric]
    using e short ok(2) by (cases e) (simp_all add: s1 s2)
qed

lemma GetMulti_worker_itemized:
  assumes lo: "lo = i * getMultiLimit"
    and hi: "hi = (if (i + 1) * getMultiLimit > int (length dskeys) then int (length dskeys)
                   else (i + 1) * getMultiLimit)"
    and ok: "0 \<le> lo" "lo \<le> hi" "hi \<le> int (length dsdst)" "hi \<le> int (length dixs)"
    and e: "get i (slice dskeys lo hi) (slice dsdst lo hi) = Some (MultiError merr)"
  shows "GetMulti_worker ignore get dskeys dsdst dixs i st =
           (case GetMulti_range_loop ignore merr
                   (zip [0..<length (slice dixs lo hi)] (slice dixs lo hi)) (multiErr st) of
              Inl p \<Rightarrow> Inl p
            | Inr m \<Rightarrow>
                Inr (st\<lparr>calls := calls st @ [(slice dskeys lo hi, slice dsdst lo hi)],
                       anyErr := True, multiErr := m\<rparr>))"
proof -
  have hi': "hi \<le> int (length dskeys)" using hi by (simp split: if_splits)
  have s1: "go_slice dskeys lo hi = Inr (slice dskeys lo hi)"
    using ok hi' by (simp add: go_slice_def)
  have s2: "go_slice dsdst lo hi = Inr (slice dsdst lo hi)"
    using ok by (simp add: go_slice_def)
  have s3: "go_slice dixs lo hi = Inr (slice dixs lo hi)"
    using ok by (simp add: go_slice_def)
  show ?thesis
    unfolding GetMulti_worker_def Let_def lo [symmetric] hi [symmetric]
    using e by (simp add: s1 s2 s3 split: sum.split)
qed




section \<open>The field-mismatch toggle\<close>

text \<open>
  \<open>GetAll\<close> and \<open>Iterator.Next\<close> honour the toggle (lemmas \<open>GetAll_field_mismatch\<close> and
  \<open>Next_field_mismatch\<close> above); for a query with no destination \<open>GetAll\<close> returns the
  keys, and the error unless it is a mismatch that is tolerated.
\<close>

lemma GetAll_keys_only:
  assumes "getAll DstNil = (keys, err, w)"
  shows "GetAll ignore getAll setKey zero DstNil =
           Inr (keys, if errFieldMismatch err \<and> ignore then None else err)"
  using assms by (auto simp: GetAll_def)

text \<open>
  Claim C7. With \<open>IgnoreFieldMismatch\<close> off, take an entity with a complete key whose
  stored form has a field that the struct lacks: asked for the key, the store reports
  a field mismatch. \<open>GetMulti\<close> and \<open>Get\<close>, which always run outside a transaction, make
  their one service call with no key and return nil whatever the service answers, as
  they do with the toggle on: the mismatch is not surfaced at the entity's index, where
  the claim has it surfaced like any other error.
\<close>

theorem field_mismatch_not_surfaced:
  "example_stale_service 0 [Key ''Entity'' 1 [] None []] [WithID 1]
     = Some (MultiError [Some example_mismatch]) \<and>
   errFieldMismatch (Some example_mismatch) \<and>
   GetMulti msg example_getStructKey fmtv False False getTx get (Slice [WithID 1])
     = Inr (None, [([], [])]) \<and>
   Get msg example_getStructKey fmtv False False getTx get (Ptr (WithID 1))
     = Inr (None, [([], [])]) \<and>
   GetMulti msg example_getStructKey fmtv True False getTx get (Slice [WithID 1])
     = GetMulti msg example_getStructKey fmtv False False getTx get (Slice [WithID 1])"
proof -
  have x: "extractKeys example_getStructKey fmtv (Slice [WithID 1]) False =
      Inr [Key ''Entity'' 1 [] None []]"
    by (simp add: extractKeys_def Incomplete_def)
  have off: "GetMulti msg example_getStructKey fmtv False False getTx get (Slice [WithID 1])
      = Inr (None, [([], [])])"
    using x by (rule GetMulti_outside_transaction)
  have on: "GetMulti msg example_getStructKey fmtv True False getTx get (Slice [WithID 1])
      = Inr (None, [([], [])])"
    using x by (rule GetMulti_outside_transaction)
  from off on show ?thesis
    by (simp add: Get_def example_stale_service_def example_stale_store_def
        example_mismatch_def)
qed

section \<open>The order of the goroutines\<close>

lemma cw_slot_any_order:
  assumes L: "0 < limit" and nn: "\<forall>x \<in> set js. 0 \<le> x" and d: "distinct js"
    and i: "i \<in> set js" and j: "j < length (multiErr st)"
    and inr: "fst (chunk limit n i) \<le> int j" "int j < snd (chunk limit n i)"
  shows "multiErr (fold (chunk_worker limit n resp req) js st) ! j =
           multiErr (chunk_worker limit n resp req i st) ! j"
proof -
  let ?W = "chunk_worker limit n resp req"
  from i obtain pre post where js: "js = pre @ i # post" by (auto dest: split_list)
  with d have notin: "i \<notin> set pre" "i \<notin> set post" by simp_all
  have other: "\<not> (fst (chunk limit n i') \<le> int j \<and> int j < snd (chunk limit n i'))"
    if "i' \<noteq> i" for i'
    using chunk_disjoint [OF L _ inr, of i'] that by blast
  let ?st1 = "fold ?W pre st"
  have i0: "0 \<le> i" using nn i by simp
  have lo: "0 \<le> fst (chunk limit n i)" using i0 L by (simp add: fst_chunk)
  have o_pre: "\<forall>i' \<in> set pre.
      \<not> (fst (chunk limit n i') \<le> int j \<and> int j < snd (chunk limit n i'))"
  proof
    fix i' assume "i' \<in> set pre"
    with notin(1) have "i' \<noteq> i" by auto
    then show "\<not> (fst (chunk limit n i') \<le> int j \<and> int j < snd (chunk limit n i'))"
      by (rule other)
  qed
  have o_post: "\<forall>i' \<in> set post.
      \<not> (fst (chunk limit n i') \<le> int j \<and> int j < snd (chunk limit n i'))"
  proof
    fix i' assume "i' \<in> set post"
    with notin(2) have "i' \<noteq> i" by auto
    then show "\<not> (fst (chunk limit n i') \<le> int j \<and> int j < snd (chunk limit n i'))"
      by (rule other)
  qed
  have nn': "\<forall>x \<in> set pre. 0 \<le> x" "\<forall>x \<in> set post. 0 \<le> x"
    using nn js by simp_all
  have 1: "multiErr ?st1 ! j = multiErr st ! j"
    using nn'(1) L j o_pre by (rule cw_untouched)
  have "multiErr (fold ?W js st) ! j = multiErr (fold ?W post (?W i ?st1)) ! j"
    by (simp add: js)
  also have "\<dots> = multiErr (?W i ?st1) ! j"
  proof -
    have "j < length (multiErr (?W i ?st1))" using j by (simp add: chunk_worker_def)
    with nn'(2) L show ?thesis using o_post by (rule cw_untouched)
  qed
  finally have 2: "multiErr (fold ?W js st) ! j = multiErr (?W i ?st1) ! j" .
  have "multiErr (?W i ?st1) ! j = multiErr (?W i st) ! j"
  proof (cases "resp i")
    case None
    then show ?thesis using 1 by (simp add: chunk_worker_def record_failure_def)
  next
    case (Some e)
    show ?thesis
    proof (cases "\<exists>merr. e = MultiError merr")
      case False
      then have ne: "\<forall>merr. e \<noteq> MultiError merr" by simp
      have "multiErr (?W i s) ! j = Some e" if "length (multiErr s) = length (multiErr st)" for s
        unfolding chunk_worker_def Some
        using lo j inr ne that by (intro rf_plain) simp_all
      then show ?thesis by simp
    next
      case True
      then obtain merr where e: "e = MultiError merr" by blast
      have "multiErr (?W i s) ! j =
          (if fst (chunk limit n i) \<le> int j \<and>
              int j < fst (chunk limit n i) +
                min (snd (chunk limit n i) - fst (chunk limit n i)) (int (length merr)) \<and>
              int j < snd (chunk limit n i)
           then merr ! (j - nat (fst (chunk limit n i))) else multiErr s ! j)"
        if "length (multiErr s) = length (multiErr st)" for s
        unfolding chunk_worker_def Some e
        using lo j that by (simp add: record_failure_def nth_copy_into)
      then show ?thesis using 1 by simp
    qed
  qed
  with 2 show ?thesis by simp
qed

text \<open>
  The goroutines run concurrently. Whatever the order in which they finish, the
  outcome array and the flag are those of the run in the order of the index.
\<close>

lemma goroutine_order_irrelevant:
  assumes L: "0 < limit" and d: "distinct js" and s: "set js = {0..g - 1}"
  shows "multiErr (fold (chunk_worker limit n resp req) js st) =
           multiErr (fold (chunk_worker limit n resp req) [0..g - 1] st)"
    and "anyErr (fold (chunk_worker limit n resp req) js st) =
           anyErr (fold (chunk_worker limit n resp req) [0..g - 1] st)"
proof -
  let ?W = "chunk_worker limit n resp req"
  have nn: "\<forall>x \<in> set js. 0 \<le> x" "\<forall>x \<in> set [0..g - 1]. 0 \<le> x" using s by auto
  have d': "distinct [0..g - 1]" by simp
  show "multiErr (fold ?W js st) = multiErr (fold ?W [0..g - 1] st)"
  proof (rule nth_equalityI)
    show "length (multiErr (fold ?W js st)) = length (multiErr (fold ?W [0..g - 1] st))"
      by simp
  next
    fix j assume "j < length (multiErr (fold ?W js st))"
    then have j: "j < length (multiErr st)" by simp
    show "multiErr (fold ?W js st) ! j = multiErr (fold ?W [0..g - 1] st) ! j"
    proof (cases "\<exists>i \<in> {0..g - 1}.
        fst (chunk limit n i) \<le> int j \<and> int j < snd (chunk limit n i)")
      case True
      then obtain i where i: "i \<in> {0..g - 1}"
        "fst (chunk limit n i) \<le> int j" "int j < snd (chunk limit n i)"
        by blast
      have "multiErr (fold ?W js st) ! j = multiErr (?W i st) ! j"
        using i s by (intro cw_slot_any_order [OF L nn(1) d _ j]) simp_all
      moreover have "multiErr (fold ?W [0..g - 1] st) ! j = multiErr (?W i st) ! j"
        using i by (intro cw_slot_any_order [OF L nn(2) d' _ j]) simp_all
      ultimately show ?thesis by simp
    next
      case False
      then have no: "\<forall>i \<in> set js.
          \<not> (fst (chunk limit n i) \<le> int j \<and> int j < snd (chunk limit n i))"
        "\<forall>i \<in> set [0..g - 1].
          \<not> (fst (chunk limit n i) \<le> int j \<and> int j < snd (chunk limit n i))"
        using s by simp_all
      have "multiErr (fold ?W js st) ! j = multiErr st ! j"
        using nn(1) L j no(1) by (rule cw_untouched)
      moreover have "multiErr (fold ?W [0..g - 1] st) ! j = multiErr st ! j"
        using nn(2) L j no(2) by (rule cw_untouched)
      ultimately show ?thesis by simp
    qed
  qed
  show "anyErr (fold ?W js st) = anyErr (fold ?W [0..g - 1] st)"
    using s by (simp add: cw_anyErr)
qed

lemma PutMulti_order_irrelevant:
  assumes "distinct js" "set js = {0..goroutines putMultiLimit (int (length keys)) - 1}"
  shows "multiErr (fold (PutMulti_worker put keys v) js
            \<lparr>multiErr = replicate (length keys) None, anyErr = False, calls = []\<rparr>)
           = multiErr (PutMulti_run put keys v)"
    and "anyErr (fold (PutMulti_worker put keys v) js
            \<lparr>multiErr = replicate (length keys) None, anyErr = False, calls = []\<rparr>)
           = anyErr (PutMulti_run put keys v)"
proof -
  have L: "0 < putMultiLimit" by (simp add: putMultiLimit_def)
  show "multiErr (fold (PutMulti_worker put keys v) js
            \<lparr>multiErr = replicate (length keys) None, anyErr = False, calls = []\<rparr>)
           = multiErr (PutMulti_run put keys v)"
    unfolding PutMulti_run_eq PutMulti_worker_eq
    using L assms by (rule goroutine_order_irrelevant(1))
  show "anyErr (fold (PutMulti_worker put keys v) js
            \<lparr>multiErr = replicate (length keys) None, anyErr = False, calls = []\<rparr>)
           = anyErr (PutMulti_run put keys v)"
    unfolding PutMulti_run_eq PutMulti_worker_eq
    using L assms by (rule goroutine_order_irrelevant(2))
qed

lemma DeleteMulti_order_irrelevant:
  assumes "distinct js" "set js = {0..goroutines deleteMultiLimit (int (length keys)) - 1}"
  shows "multiErr (fold (DeleteMulti_worker del keys) js
            \<lparr>multiErr = replicate (length keys) None, anyErr = False, calls = []\<rparr>)
           = multiErr (DeleteMulti_run del keys)"
    and "anyErr (fold (DeleteMulti_worker del keys) js
            \<lparr>multiErr = replicate (length keys) None, anyErr = False, calls = []\<rparr>)
           = anyErr (DeleteMulti_run del keys)"
proof -
  have L: "0 < deleteMultiLimit" by (simp add: deleteMultiLimit_def)
  show "multiErr (fold (DeleteMulti_worker del keys) js
            \<lparr>multiErr = replicate (length keys) None, anyErr = False, calls = []\<rparr>)
           = multiErr (DeleteMulti_run del keys)"
    unfolding DeleteMulti_run_eq DeleteMulti_worker_eq
    using L assms by (rule goroutine_order_irrelevant(1))
  show "anyErr (fold (DeleteMulti_worker del keys) js
            \<lparr>multiErr = replicate (length keys) None, anyErr = False, calls = []\<rparr>)
           = anyErr (DeleteMulti_run del keys)"
    unfolding DeleteMulti_run_eq DeleteMulti_worker_eq
    using L assms by (rule goroutine_order_irrelevant(2))
qed

end
